theory Spec2Isabelle
  imports Complex_Main
begin

section \<open>The tiling interface used by the searches\<close>

text \<open>
  The searches of \<^verbatim>\<open>tilesearch.py\<close> and the coordinator of \<^verbatim>\<open>gerbmerge.py\<close> use the
  module \<^verbatim>\<open>tiling\<close> only through the operations below. They are modelled over any
  implementation of these operations: a record of functions over an arbitrary type \<open>'t\<close>
  of tilings, \<open>'p\<close> of add-points and \<open>'j\<close> of job handles. The methods that mutate a
  tiling in place (\<^verbatim>\<open>addJob\<close>, \<^verbatim>\<open>removeInlets\<close>) return the changed tiling;
  \<^verbatim>\<open>clone\<close> is then the identity. Dimensions, areas and times are Python floats, modelled
  as reals; the corner count is an integer.

  A \<^verbatim>\<open>Tiling\<close> object is taken to be truthy (the tests \<^verbatim>\<open>if not tiles\<close>,
  \<^verbatim>\<open>if baseTiling\<close>, \<^verbatim>\<open>newResult[1] and ...\<close> tell a tiling from \<^verbatim>\<open>None\<close>), so a value
  that is a tiling or \<^verbatim>\<open>None\<close> is an \<open>option\<close>.
\<close>

type_synonym 'j job_entry = "real \<times> real \<times> 'j \<times> 'j"
  \<comment> \<open>the 4-tuple \<^verbatim>\<open>(Xdim, Ydim, job, rjob)\<close>\<close>

record ('t, 'p, 'j) tiling_api =
  newTiling :: "real \<Rightarrow> real \<Rightarrow> real \<Rightarrow> real \<Rightarrow> 't"
  validAddPoints :: "'t \<Rightarrow> real \<Rightarrow> real \<Rightarrow> 'p list"
  addJob :: "'t \<Rightarrow> 'p \<Rightarrow> real \<Rightarrow> real \<Rightarrow> 'j \<Rightarrow> 't"
  removeInlets :: "'t \<Rightarrow> real \<Rightarrow> 't"
  area :: "'t \<Rightarrow> real"
  corners :: "'t \<Rightarrow> int"
  minDimension :: "'j job_entry list \<Rightarrow> real"

section \<open>TileSearch: the state shared by both searches\<close>

text \<open>
  \<^verbatim>\<open>bestScore\<close> starts at \<^verbatim>\<open>float("inf")\<close> and is afterwards an area: a score is a real
  or positive infinity, compared as Python compares floats.
\<close>

datatype score = Score real | PosInf

fun score_lt :: "score \<Rightarrow> score \<Rightarrow> bool" where
  "score_lt (Score a) (Score b) = (a < b)"
| "score_lt (Score a) PosInf = True"
| "score_lt PosInf b = False"

datatype error = AttributeError | ZeroDivisionError | ValueError

text \<open>
  The fields of a search object that its methods assign. Each call of \<^verbatim>\<open>time.time()\<close>
  reads the next value of a clock \<open>tm :: nat \<Rightarrow> real\<close>; \<open>ticks\<close> counts the reads made
  so far.
\<close>

type_synonym clock = "nat \<Rightarrow> real"

record 't search_state =
  bestTiling :: "'t option"
  bestScore :: score
  placements :: nat
  lastCheckTime :: real
  ticks :: nat

text \<open>The fields that are set by \<^verbatim>\<open>__init__\<close> and only read afterwards.\<close>

record 'j search_cfg =
  jobs :: "'j job_entry list"
  panel_x :: real
  panel_y :: real
  xspacing :: real
  yspacing :: real
  searchTimeout :: real
  startTime :: real
  syncPeriod :: real

section \<open>ExhaustiveSearch\<close>

text \<open>An exhaustive search also counts the permutations checked so far.\<close>

record 't exh_state = "'t search_state" +
  permutations :: nat

text \<open>
  The leaf of \<^verbatim>\<open>_run\<close> (no jobs left): compare the area with the best score, break a
  tie on the corner count, count the permutation on the first-anchor chain.
  \<^verbatim>\<open>self.bestTiling.corners()\<close> raises AttributeError when \<^verbatim>\<open>self.bestTiling\<close> is None.
\<close>

definition leaf_update ::
  "('t, 'p, 'j) tiling_api \<Rightarrow> 't \<Rightarrow> bool \<Rightarrow> 't exh_state \<Rightarrow> error + 't exh_state" where
  "leaf_update api tiles firstAddPoint s =
     (let sc = Score (area api tiles);
          count = (\<lambda>s'. if firstAddPoint then s'\<lparr>permutations := permutations s' + 1\<rparr> else s');
          better = s\<lparr>bestTiling := Some tiles, bestScore := sc\<rparr>
      in if score_lt sc (bestScore s) then Inr (count better)
         else if sc = bestScore s then
           (case bestTiling s of
              None \<Rightarrow> Inl AttributeError
            | Some b \<Rightarrow> if corners api tiles < corners api b then Inr (count better)
                        else Inr (count s))
         else Inr (count s))"

text \<open>
  \<^verbatim>\<open>print(self)\<close> is output, but \<^verbatim>\<open>__str__\<close> first computes the utilization of the best
  tiling, \<^verbatim>\<open>usedArea() / area * 100.0\<close>, which raises ZeroDivisionError for an area of
  zero.
\<close>

definition print_self ::
  "('t, 'p, 'j) tiling_api \<Rightarrow> ('t, 'z) search_state_scheme \<Rightarrow> error + unit" where
  "print_self api s =
     (case bestTiling s of
        Some b \<Rightarrow> if area api b = 0 then Inl ZeroDivisionError else Inr ()
      | None \<Rightarrow> Inr ())"

text \<open>
  The throttled status report at the end of each iteration of the job loop of \<^verbatim>\<open>_run\<close>.
  The result says whether \<^verbatim>\<open>_run\<close> returns here (the timeout check), and gives the state
  after the clock reads.
\<close>

definition sync_check ::
  "('t, 'p, 'j) tiling_api \<Rightarrow> clock \<Rightarrow> 'j search_cfg \<Rightarrow> bool \<Rightarrow> 't exh_state \<Rightarrow>
   error + bool \<times> 't exh_state" where
  "sync_check api tm cfg printStats s =
     (if \<not> printStats then Inr (False, s)
      else if tm (ticks s) > lastCheckTime s + syncPeriod cfg then
        (let s1 = s\<lparr>lastCheckTime := tm (ticks s + 1), ticks := ticks s + 2\<rparr>
         in case print_self api s1 of
              Inl e \<Rightarrow> Inl e
            | Inr u \<Rightarrow>
                if searchTimeout cfg > 0 then
                  Inr (tm (ticks s1) - startTime cfg > searchTimeout cfg,
                       s1\<lparr>ticks := ticks s1 + 1\<rparr>)
                else Inr (False, s1))
      else Inr (False, s\<lparr>ticks := ticks s + 1\<rparr>))"

definition prune :: "bool \<Rightarrow> nat \<Rightarrow> 't exh_state \<Rightarrow> 't exh_state" where
  "prune firstAddPoint remaining s =
     (if firstAddPoint then s\<lparr>permutations := permutations s + 2 ^ remaining\<rparr> else s)"

text \<open>
  \<^verbatim>\<open>_run\<close> is \<open>es_run\<close>; its loop over \<^verbatim>\<open>job_ix\<close> is \<open>es_job_loop\<close> (on the tiling
  after \<^verbatim>\<open>removeInlets\<close>), and each of its two loops over add-points is \<open>es_point_loop\<close>
  (\<open>p0\<close> is \<^verbatim>\<open>addpoints[0]\<close>).
\<close>

function
  es_run :: "('t, 'p, 'j) tiling_api \<Rightarrow> clock \<Rightarrow> 'j search_cfg \<Rightarrow> 'j job_entry list \<Rightarrow>
     't option \<Rightarrow> bool \<Rightarrow> bool \<Rightarrow> 't exh_state \<Rightarrow> error + 't exh_state"
and
  es_job_loop :: "('t, 'p, 'j) tiling_api \<Rightarrow> clock \<Rightarrow> 'j search_cfg \<Rightarrow> 'j job_entry list \<Rightarrow>
     't \<Rightarrow> bool \<Rightarrow> bool \<Rightarrow> nat \<Rightarrow> 't exh_state \<Rightarrow> error + 't exh_state"
and
  es_point_loop :: "('t, 'p, 'j) tiling_api \<Rightarrow> clock \<Rightarrow> 'j search_cfg \<Rightarrow> 'j job_entry list \<Rightarrow>
     't \<Rightarrow> real \<Rightarrow> real \<Rightarrow> 'j \<Rightarrow> bool \<Rightarrow> bool \<Rightarrow> 'p \<Rightarrow> 'p list \<Rightarrow> 't exh_state \<Rightarrow>
     error + 't exh_state"
where
  "es_run api tm cfg Jobs tiles firstAddPoint printStats s =
     (case tiles of
        None \<Rightarrow> Inr s
      | Some t \<Rightarrow>
          if Jobs = [] then leaf_update api t firstAddPoint s
          else es_job_loop api tm cfg Jobs (removeInlets api t (minDimension api Jobs))
                 firstAddPoint printStats 0 s)"
| "es_job_loop api tm cfg Jobs tiles firstAddPoint printStats job_ix s =
     (if job_ix < length Jobs then
        (case Jobs ! job_ix of (Xdim, Ydim, job, rjob) \<Rightarrow>
          (let remaining_jobs = take job_ix Jobs @ drop (job_ix + 1) Jobs;
               addpoints1 = validAddPoints api tiles (Xdim + xspacing cfg) (Ydim + yspacing cfg);
               addpoints2 = (if Xdim \<noteq> Ydim
                             then validAddPoints api tiles (Ydim + xspacing cfg) (Xdim + yspacing cfg)
                             else [])
           in case (if addpoints1 \<noteq> []
                    then es_point_loop api tm cfg remaining_jobs tiles
                           (Xdim + xspacing cfg) (Ydim + yspacing cfg) job
                           firstAddPoint printStats (hd addpoints1) addpoints1 s
                    else Inr (prune firstAddPoint (length remaining_jobs) s)) of
                Inl e \<Rightarrow> Inl e
              | Inr s1 \<Rightarrow>
                 (case (if addpoints2 \<noteq> []
                        then es_point_loop api tm cfg remaining_jobs tiles
                               (Ydim + xspacing cfg) (Xdim + yspacing cfg) rjob
                               firstAddPoint printStats (hd addpoints2) addpoints2 s1
                        else Inr (prune firstAddPoint (length remaining_jobs) s1)) of
                    Inl e \<Rightarrow> Inl e
                  | Inr s2 \<Rightarrow>
                     (case sync_check api tm cfg printStats s2 of
                        Inl e \<Rightarrow> Inl e
                      | Inr (True, s3) \<Rightarrow> Inr s3
                      | Inr (False, s3) \<Rightarrow>
                          es_job_loop api tm cfg Jobs tiles firstAddPoint printStats
                            (job_ix + 1) s3))))
      else Inr s)"
| "es_point_loop api tm cfg remaining_jobs tiles w h j firstAddPoint printStats p0 pts s =
     (case pts of
        [] \<Rightarrow> Inr s
      | ix # rest \<Rightarrow>
          (case es_run api tm cfg remaining_jobs (Some (addJob api tiles ix w h j))
                  (firstAddPoint \<and> ix = p0) printStats s of
             Inl e \<Rightarrow> Inl e
           | Inr s' \<Rightarrow>
               es_point_loop api tm cfg remaining_jobs tiles w h j firstAddPoint printStats
                 p0 rest s'))"
  by pat_completeness auto
termination
  by (relation "inv_image (less_than <*lex*> less_than <*lex*> less_than)
        (\<lambda>a. case a of
           Inl (api, tm, cfg, Jobs, tiles, f, ps, s) \<Rightarrow> (length Jobs, 2::nat, 0::nat)
         | Inr (Inl (api, tm, cfg, Jobs, tiles, f, ps, job_ix, s)) \<Rightarrow>
             (length Jobs, 1, length Jobs - job_ix)
         | Inr (Inr (api, tm, cfg, Jobs, tiles, w, h, j, f, ps, p0, pts, s)) \<Rightarrow>
             (length Jobs, 3, length pts))") auto

declare es_run.simps [simp del] es_job_loop.simps [simp del] es_point_loop.simps [simp del]

text \<open>
  \<^verbatim>\<open>TileSearch.__init__\<close>, called when the clock has been read \<open>k\<close> times: the start
  time is the next reading, \<open>rnd\<close> is the value of \<^verbatim>\<open>random.random()\<close>.
\<close>

definition TileSearch_init_cfg ::
  "clock \<Rightarrow> nat \<Rightarrow> real \<Rightarrow> 'j job_entry list \<Rightarrow> real \<Rightarrow> real \<Rightarrow> real \<Rightarrow> real \<Rightarrow> real \<Rightarrow>
   'j search_cfg" where
  "TileSearch_init_cfg tm k rnd Jobs x y xsp ysp timeout =
     \<lparr>jobs = Jobs, panel_x = x, panel_y = y, xspacing = xsp, yspacing = ysp,
      searchTimeout = timeout, startTime = tm k, syncPeriod = 3 + (rnd - 0.5) / 5\<rparr>"

text \<open>\<^verbatim>\<open>ExhaustiveSearch.__init__\<close>: the size of the search space and the base tiling.\<close>

definition ExhaustiveSearch_init_state :: "nat \<Rightarrow> 't exh_state" where
  "ExhaustiveSearch_init_state k =
     \<lparr>bestTiling = None, bestScore = PosInf, placements = 0, lastCheckTime = 0,
      ticks = k + 1, permutations = 0\<rparr>"

definition possiblePermutations :: "'j job_entry list \<Rightarrow> nat" where
  "possiblePermutations Jobs = 2 ^ length Jobs * fact (length Jobs)"

definition es_baseTiling ::
  "('t, 'p, 'j) tiling_api \<Rightarrow> 'j search_cfg \<Rightarrow> 't option \<Rightarrow> 't" where
  "es_baseTiling api cfg baseTiling =
     (case baseTiling of
        Some t \<Rightarrow> t
      | None \<Rightarrow> newTiling api (panel_x cfg) (panel_y cfg) (xspacing cfg) (yspacing cfg))"

text \<open>\<^verbatim>\<open>ExhaustiveSearch.run\<close> on a search object with configuration \<open>cfg\<close> and state \<open>s\<close>.\<close>

definition ExhaustiveSearch_run ::
  "('t, 'p, 'j) tiling_api \<Rightarrow> clock \<Rightarrow> 'j search_cfg \<Rightarrow> 't \<Rightarrow> bool \<Rightarrow> 't exh_state \<Rightarrow>
   error + 't exh_state" where
  "ExhaustiveSearch_run api tm cfg baseTiling printStats s =
     es_run api tm cfg (jobs cfg) (Some baseTiling) True printStats s"

text \<open>Construction followed by \<^verbatim>\<open>run\<close>, as every caller does it.\<close>

definition exhaustive_search ::
  "('t, 'p, 'j) tiling_api \<Rightarrow> clock \<Rightarrow> nat \<Rightarrow> real \<Rightarrow> 'j job_entry list \<Rightarrow> real \<Rightarrow> real \<Rightarrow>
   real \<Rightarrow> real \<Rightarrow> real \<Rightarrow> 't option \<Rightarrow> bool \<Rightarrow> error + 't exh_state" where
  "exhaustive_search api tm k rnd Jobs x y xsp ysp timeout baseTiling printStats =
     (let cfg = TileSearch_init_cfg tm k rnd Jobs x y xsp ysp timeout
      in ExhaustiveSearch_run api tm cfg (es_baseTiling api cfg baseTiling) printStats
           (ExhaustiveSearch_init_state k))"

section \<open>RandomSearch\<close>

text \<open>
  The random draws of one trial of \<^verbatim>\<open>RandomSearch.run\<close>: the sampled job order, for the
  job at each position of that order the orientation (\<^verbatim>\<open>r.choice([0, 1])\<close>) and a number
  that selects the add-point (\<^verbatim>\<open>r.choice(addpoints)\<close>), and the \<^verbatim>\<open>random.random()\<close> of
  the tail search's constructor.
\<close>

record trial_random =
  joborder :: "nat list"
  coin :: "nat \<Rightarrow> bool"
  choice :: "nat \<Rightarrow> nat"
  tail_rnd :: real

text \<open>
  The worker: the search object's fields, the two local variables of \<^verbatim>\<open>run\<close> that live
  across trials, and the messages put on the queue so far.
\<close>

record 't worker_state = "'t search_state" +
  foundBetter :: bool
  placementsSinceLastCheck :: nat
  q :: "(nat \<times> 't option) list"

definition RandomSearch_init_state :: "nat \<Rightarrow> 't worker_state" where
  "RandomSearch_init_state k =
     \<lparr>bestTiling = None, bestScore = PosInf, placements = 0, lastCheckTime = 0,
      ticks = k + 1, foundBetter = False, placementsSinceLastCheck = 0, q = []\<rparr>"

definition rs_M :: "'j search_cfg \<Rightarrow> int \<Rightarrow> nat" where
  "rs_M cfg exhaustiveSearchJobs = nat (max (int (length (jobs cfg)) - exhaustiveSearchJobs) 0)"

text \<open>The add-points asked for in the chosen orientation of a job, and the placement there.\<close>

definition chosen_addpoints ::
  "('t, 'p, 'j) tiling_api \<Rightarrow> 'j search_cfg \<Rightarrow> bool \<Rightarrow> 'j job_entry \<Rightarrow> 't \<Rightarrow> 'p list" where
  "chosen_addpoints api cfg normal e t =
     (case e of (Xdim, Ydim, job, rjob) \<Rightarrow>
        if normal then validAddPoints api t (Xdim + xspacing cfg) (Ydim + yspacing cfg)
        else validAddPoints api t (Ydim + xspacing cfg) (Xdim + yspacing cfg))"

definition chosen_addJob ::
  "('t, 'p, 'j) tiling_api \<Rightarrow> 'j search_cfg \<Rightarrow> bool \<Rightarrow> 'j job_entry \<Rightarrow> 'p \<Rightarrow> 't \<Rightarrow> 't" where
  "chosen_addJob api cfg normal e pt t =
     (case e of (Xdim, Ydim, job, rjob) \<Rightarrow>
        if normal then addJob api t pt (Xdim + xspacing cfg) (Ydim + yspacing cfg) job
        else addJob api t pt (Ydim + xspacing cfg) (Xdim + yspacing cfg) rjob)"

text \<open>
  The loop \<^verbatim>\<open>for ix in joborder[:M]\<close> from position \<open>pos\<close> of the order on: \<open>None\<close> is
  the \<^verbatim>\<open>break\<close>, \<open>Some\<close> the tiling when the loop runs to its end.
\<close>

fun place_random ::
  "('t, 'p, 'j) tiling_api \<Rightarrow> 'j search_cfg \<Rightarrow> trial_random \<Rightarrow> real \<Rightarrow> nat \<Rightarrow> nat list \<Rightarrow> 't \<Rightarrow>
   't option" where
  "place_random api cfg rand minInletSize pos [] currentTiling = Some currentTiling"
| "place_random api cfg rand minInletSize pos (ix # rest) currentTiling =
     (let t = removeInlets api currentTiling minInletSize;
          addpoints = chosen_addpoints api cfg (coin rand pos) (jobs cfg ! ix) t
      in if addpoints = [] then None
         else place_random api cfg rand minInletSize (pos + 1) rest
                (chosen_addJob api cfg (coin rand pos) (jobs cfg ! ix)
                   (addpoints ! (choice rand pos mod length addpoints)) t))"

text \<open>The first part of a trial: the threshold is computed once, from all jobs.\<close>

definition rs_place ::
  "('t, 'p, 'j) tiling_api \<Rightarrow> 'j search_cfg \<Rightarrow> int \<Rightarrow> 't \<Rightarrow> trial_random \<Rightarrow> 't option" where
  "rs_place api cfg exhaustiveSearchJobs baseTiling rand =
     place_random api cfg rand (minDimension api (jobs cfg)) 0
       (take (rs_M cfg exhaustiveSearchJobs) (joborder rand)) baseTiling"

text \<open>
  The \<^verbatim>\<open>else\<close> of the loop: the exhaustive search on the remaining jobs, when the loop
  has not been left by \<^verbatim>\<open>break\<close> and \<^verbatim>\<open>N - M\<close> is not zero. \<open>k\<close> is the number of clock
  reads so far.
\<close>

definition rs_tail ::
  "('t, 'p, 'j) tiling_api \<Rightarrow> clock \<Rightarrow> 'j search_cfg \<Rightarrow> int \<Rightarrow> 't \<Rightarrow> trial_random \<Rightarrow> nat \<Rightarrow>
   (error + 't exh_state) option" where
  "rs_tail api tm cfg exhaustiveSearchJobs baseTiling rand k =
     (case rs_place api cfg exhaustiveSearchJobs baseTiling rand of
        None \<Rightarrow> None
      | Some currentTiling \<Rightarrow>
          if int (length (jobs cfg)) - int (rs_M cfg exhaustiveSearchJobs) \<noteq> 0 then
            Some (exhaustive_search api tm k (tail_rnd rand)
                    (map (\<lambda>ix. jobs cfg ! ix) (drop (rs_M cfg exhaustiveSearchJobs) (joborder rand)))
                    (panel_x cfg) (panel_y cfg) (xspacing cfg) (yspacing cfg) 0
                    (Some currentTiling) False)
          else None)"

definition rs_count :: "'t worker_state \<Rightarrow> 't worker_state" where
  "rs_count w = w\<lparr>placements := placements w + 1,
                   placementsSinceLastCheck := placementsSinceLastCheck w + 1\<rparr>"

text \<open>One trial, up to the counting of the placement.\<close>

definition rs_trial ::
  "('t, 'p, 'j) tiling_api \<Rightarrow> clock \<Rightarrow> 'j search_cfg \<Rightarrow> int \<Rightarrow> 't \<Rightarrow> trial_random \<Rightarrow>
   't worker_state \<Rightarrow> error + 't worker_state" where
  "rs_trial api tm cfg exhaustiveSearchJobs baseTiling rand w =
     (case rs_tail api tm cfg exhaustiveSearchJobs baseTiling rand (ticks w) of
        None \<Rightarrow> Inr (rs_count w)
      | Some (Inl e) \<Rightarrow> Inl e
      | Some (Inr finalSearch) \<Rightarrow>
          (let w1 = w\<lparr>ticks := ticks finalSearch\<rparr>
           in if score_lt (bestScore finalSearch) (bestScore w1)
              then Inr (rs_count (w1\<lparr>bestScore := bestScore finalSearch,
                                      bestTiling := bestTiling finalSearch,
                                      foundBetter := True\<rparr>))
              else Inr (rs_count w1)))"

text \<open>
  The synchronization at the end of a trial: the message for the coordinator, and the
  timeout check; the result says whether \<^verbatim>\<open>run\<close> returns.
\<close>

definition rs_sync ::
  "clock \<Rightarrow> 'j search_cfg \<Rightarrow> 't worker_state \<Rightarrow> bool \<times> 't worker_state" where
  "rs_sync tm cfg w =
     (if tm (ticks w) > lastCheckTime w + syncPeriod cfg then
        (let w1 = w\<lparr>lastCheckTime := tm (ticks w + 1), ticks := ticks w + 2,
                     q := q w @ [(placementsSinceLastCheck w,
                                  if foundBetter w then bestTiling w else None)],
                     foundBetter := False, placementsSinceLastCheck := 0\<rparr>
         in if searchTimeout cfg > 0 then
              (tm (ticks w1) - startTime cfg > searchTimeout cfg, w1\<lparr>ticks := ticks w1 + 1\<rparr>)
            else (False, w1))
      else (False, w\<lparr>ticks := ticks w + 1\<rparr>))"

text \<open>
  \<^verbatim>\<open>while 1\<close>: the loop may run forever, so it is run on the random draws of finitely
  many trials. The result says whether \<^verbatim>\<open>run\<close> has returned within these trials.
\<close>

fun rs_run ::
  "('t, 'p, 'j) tiling_api \<Rightarrow> clock \<Rightarrow> 'j search_cfg \<Rightarrow> int \<Rightarrow> 't \<Rightarrow> trial_random list \<Rightarrow>
   't worker_state \<Rightarrow> error + bool \<times> 't worker_state" where
  "rs_run api tm cfg exhaustiveSearchJobs baseTiling [] w = Inr (False, w)"
| "rs_run api tm cfg exhaustiveSearchJobs baseTiling (rand # rands) w =
     (case rs_trial api tm cfg exhaustiveSearchJobs baseTiling rand w of
        Inl e \<Rightarrow> Inl e
      | Inr w1 \<Rightarrow>
          (case rs_sync tm cfg w1 of
             (True, w2) \<Rightarrow> Inr (True, w2)
           | (False, w2) \<Rightarrow> rs_run api tm cfg exhaustiveSearchJobs baseTiling rands w2))"

text \<open>Construction of a \<^verbatim>\<open>RandomSearch\<close> followed by \<^verbatim>\<open>run\<close>.\<close>

definition random_search ::
  "('t, 'p, 'j) tiling_api \<Rightarrow> clock \<Rightarrow> nat \<Rightarrow> real \<Rightarrow> 'j job_entry list \<Rightarrow> real \<Rightarrow> real \<Rightarrow>
   real \<Rightarrow> real \<Rightarrow> real \<Rightarrow> int \<Rightarrow> trial_random list \<Rightarrow> error + bool \<times> 't worker_state" where
  "random_search api tm k rnd Jobs x y xsp ysp timeout exhaustiveSearchJobs rands =
     rs_run api tm (TileSearch_init_cfg tm k rnd Jobs x y xsp ysp timeout) exhaustiveSearchJobs
       (newTiling api x y xsp ysp) rands (RandomSearch_init_state k)"

section \<open>The coordinator of the random search\<close>

text \<open>
  \<^verbatim>\<open>tile_search_random\<close> formats its reports with \<^verbatim>\<open>str.format\<close>. The presentation type
  \<^verbatim>\<open>d\<close> accepts an integer; for a float Python raises
  \<^verbatim>\<open>ValueError: Unknown format code 'd' for object of type 'float'\<close>.
\<close>

datatype pyval = PyInt int | PyFloat real

fun format_d :: "pyval \<Rightarrow> error + unit" where
  "format_d (PyInt i) = Inr ()"
| "format_d (PyFloat f) = Inl ValueError"

text \<open>The local variables of \<^verbatim>\<open>tile_search_random\<close>.\<close>

record 't coordinator =
  globalBestScore :: score
  globalBestTiling :: "'t option"
  placementsTried :: nat
  globalFoundBetter :: bool

definition coordinator_init :: "'t coordinator" where
  "coordinator_init =
     \<lparr>globalBestScore = PosInf, globalBestTiling = None, placementsTried = 0,
      globalFoundBetter = False\<rparr>"

text \<open>The body of the loop \<^verbatim>\<open>while newResult is not None\<close> for one message of a worker.\<close>

definition merge_result ::
  "('t, 'p, 'j) tiling_api \<Rightarrow> 't coordinator \<Rightarrow> nat \<times> 't option \<Rightarrow> 't coordinator" where
  "merge_result api c newResult =
     (let c1 = c\<lparr>placementsTried := placementsTried c + fst newResult\<rparr>
      in case snd newResult of
           None \<Rightarrow> c1
         | Some t \<Rightarrow>
             if score_lt (Score (area api t)) (globalBestScore c1)
             then c1\<lparr>globalBestTiling := Some t, globalFoundBetter := True,
                     globalBestScore := Score (area api t)\<rparr>
             else c1)"

text \<open>
  One round of the loop \<^verbatim>\<open>while 1\<close>: after the sleep the queue holds the messages
  \<open>msgs\<close>, the loop merges them and \<^verbatim>\<open>queue.Empty\<close> ends it; the handler reports.
  \<open>elapsed\<close> is \<^verbatim>\<open>time.time() - startTime\<close> at the report. The utilization divides by the
  area of the best tiling.
\<close>

definition report :: "('t, 'p, 'j) tiling_api \<Rightarrow> real \<Rightarrow> 't coordinator \<Rightarrow> error + unit" where
  "report api elapsed c =
     (if globalFoundBetter c then
        (case (case globalBestTiling c of
                 Some b \<Rightarrow> if area api b = 0 then Inl ZeroDivisionError else Inr ()
               | None \<Rightarrow> Inr ()) of
           Inl e \<Rightarrow> Inl e
         | Inr u \<Rightarrow>
            (case format_d (PyInt (int (placementsTried c))) of
               Inl e \<Rightarrow> Inl e
             | Inr u \<Rightarrow> format_d (PyFloat elapsed)))
      else Inr ())"

definition poll_round ::
  "('t, 'p, 'j) tiling_api \<Rightarrow> real \<times> (nat \<times> 't option) list \<Rightarrow> 't coordinator \<Rightarrow>
   error + 't coordinator" where
  "poll_round api polled c =
     (let c1 = foldl (merge_result api) (c\<lparr>globalFoundBetter := False\<rparr>) (snd polled)
      in case report api (fst polled) c1 of Inl e \<Rightarrow> Inl e | Inr u \<Rightarrow> Inr c1)"

text \<open>
  The rounds that pass until the KeyboardInterrupt arrives (during the sleep). Another
  exception leaves the loop and is not caught by \<^verbatim>\<open>except KeyboardInterrupt\<close>.
\<close>

fun coordinator_loop ::
  "('t, 'p, 'j) tiling_api \<Rightarrow> (real \<times> (nat \<times> 't option) list) list \<Rightarrow> 't coordinator \<Rightarrow>
   error + 't coordinator" where
  "coordinator_loop api [] c = Inr c"
| "coordinator_loop api (r # rounds) c =
     (case poll_round api r c of
        Inl e \<Rightarrow> Inl e
      | Inr c1 \<Rightarrow> coordinator_loop api rounds c1)"

text \<open>
  The summary after the interrupt: \<^verbatim>\<open>placementsTried / computeTime\<close> is evaluated, then the
  line is formatted, the float \<^verbatim>\<open>computeTime\<close> under \<^verbatim>\<open>{:d}\<close>.
\<close>

definition summary :: "nat \<Rightarrow> real \<Rightarrow> error + unit" where
  "summary tried computeTime =
     (if computeTime = 0 then Inl ZeroDivisionError
      else case format_d (PyInt (int tried)) of
             Inl e \<Rightarrow> Inl e
           | Inr u \<Rightarrow> format_d (PyFloat computeTime))"

definition tile_search_random ::
  "('t, 'p, 'j) tiling_api \<Rightarrow> (real \<times> (nat \<times> 't option) list) list \<Rightarrow> real \<Rightarrow>
   error + 't option" where
  "tile_search_random api rounds computeTime =
     (case coordinator_loop api rounds coordinator_init of
        Inl e \<Rightarrow> Inl e
      | Inr c \<Rightarrow>
         (case summary (placementsTried c) computeTime of
            Inl e \<Rightarrow> Inl e
          | Inr u \<Rightarrow> Inr (globalBestTiling c)))"

section \<open>Tilings to run the searches on\<close>

text \<open>
  A panel on which no job fits: no request has a valid add-point. The tiling carries no
  information.
\<close>

definition full_panel :: "(unit, nat, string) tiling_api" where
  "full_panel =
     \<lparr>newTiling = (\<lambda>x y xsp ysp. ()), validAddPoints = (\<lambda>t w h. []),
      addJob = (\<lambda>t p w h j. ()), removeInlets = (\<lambda>t m. ()), area = (\<lambda>t. 0),
      corners = (\<lambda>t. 0), minDimension = (\<lambda>js. 0)\<rparr>"

text \<open>
  A panel wide enough for all jobs in one row: a tiling is the list of the rectangles placed
  so far, left to right, and the only add-point is the end of the row (its index). The area
  is that of the bounding box; the outline has four corners and two more for each step in
  height between neighbours.
\<close>

fun row_steps :: "real list \<Rightarrow> int" where
  "row_steps (a # b # hs) = (if a = b then 0 else 1) + row_steps (b # hs)"
| "row_steps hs = 0"

definition row_panel :: "((real \<times> real \<times> string) list, nat, string) tiling_api" where
  "row_panel =
     \<lparr>newTiling = (\<lambda>x y xsp ysp. []),
      validAddPoints = (\<lambda>t w h. [length t]),
      addJob = (\<lambda>t p w h j. t @ [(w, h, j)]),
      removeInlets = (\<lambda>t m. t),
      area = (\<lambda>t. sum_list (map fst t) * fold max (map (fst \<circ> snd) t) 0),
      corners = (\<lambda>t. 4 + 2 * row_steps (map (fst \<circ> snd) t)),
      minDimension = (\<lambda>js. fold min (map (\<lambda>(X, Y, j, r). min X Y) (tl js))
                               (case hd js of (X, Y, j, r) \<Rightarrow> min X Y))\<rparr>"

text \<open>
  Any tiling with a record of the thresholds that \<^verbatim>\<open>removeInlets\<close> has been called with,
  in the order of the calls.
\<close>

definition logged :: "('t, 'p, 'j) tiling_api \<Rightarrow> ('t \<times> real list, 'p, 'j) tiling_api" where
  "logged api =
     \<lparr>newTiling = (\<lambda>x y xsp ysp. (newTiling api x y xsp ysp, [])),
      validAddPoints = (\<lambda>t. validAddPoints api (fst t)),
      addJob = (\<lambda>t p w h j. (addJob api (fst t) p w h j, snd t)),
      removeInlets = (\<lambda>t m. (removeInlets api (fst t) m, snd t @ [m])),
      area = (\<lambda>t. area api (fst t)),
      corners = (\<lambda>t. corners api (fst t)),
      minDimension = minDimension api\<rparr>"

text \<open>Three square jobs and two oblong jobs for the examples.\<close>

definition squares3 :: "string job_entry list" where
  "squares3 = [(1, 1, ''a'', ''ar''), (1, 1, ''b'', ''br''), (2, 2, ''c'', ''cr'')]"

definition oblongs2 :: "string job_entry list" where
  "oblongs2 = [(2, 1, ''a'', ''ar''), (3, 2, ''b'', ''br'')]"


section \<open>What the claims speak of\<close>

text \<open>
  The complete tilings of the exhaustive search, in the words of its description: choose
  any job not yet placed, place it in its normal orientation at any valid add-point of the
  tiling (after the inlets have been removed), or, unless it is a square, in its rotated
  orientation at any valid add-point, and go on with the jobs that remain.
\<close>

function es_leaves ::
  "('t, 'p, 'j) tiling_api \<Rightarrow> real \<Rightarrow> real \<Rightarrow> 'j job_entry list \<Rightarrow> 't \<Rightarrow> 't list" where
  "es_leaves api xsp ysp Jobs t =
     (if Jobs = [] then [t]
      else let t' = removeInlets api t (minDimension api Jobs) in
        concat (map (\<lambda>i. case Jobs ! i of (X, Y, job, rjob) \<Rightarrow>
            concat (map (\<lambda>p. es_leaves api xsp ysp (take i Jobs @ drop (i + 1) Jobs)
                                (addJob api t' p (X + xsp) (Y + ysp) job))
                        (validAddPoints api t' (X + xsp) (Y + ysp)))
          @ (if X \<noteq> Y
             then concat (map (\<lambda>p. es_leaves api xsp ysp (take i Jobs @ drop (i + 1) Jobs)
                                (addJob api t' p (Y + xsp) (X + ysp) rjob))
                        (validAddPoints api t' (Y + xsp) (X + ysp)))
             else []))
          [0..<length Jobs]))"
  by pat_completeness auto
termination
  by (relation "measure (\<lambda>(api, xsp, ysp, Jobs, t). length Jobs)") auto

declare es_leaves.simps [simp del]

text \<open>
  The complete tilings reachable in a search that is constructed with the base tiling
  \<open>base\<close>, or with none, on a panel of \<open>x\<close> by \<open>y\<close>.
\<close>

definition search_leaves ::
  "('t, 'p, 'j) tiling_api \<Rightarrow> 'j job_entry list \<Rightarrow> real \<Rightarrow> real \<Rightarrow> real \<Rightarrow> real \<Rightarrow>
   't option \<Rightarrow> 't list" where
  "search_leaves api Jobs x y xsp ysp base =
     es_leaves api xsp ysp Jobs
       (case base of Some t \<Rightarrow> t | None \<Rightarrow> newTiling api x y xsp ysp)"

text \<open>
  The status reports of a search over the tilings \<open>L\<close> do not fail: none is printed, or
  no tiling of \<open>L\<close> has an area of zero.
\<close>

definition reports_ok :: "('t, 'p, 'j) tiling_api \<Rightarrow> bool \<Rightarrow> 't list \<Rightarrow> bool" where
  "reports_ok api printStats L = (\<not> printStats \<or> (\<forall>t\<in>set L. area api t \<noteq> 0))"

text \<open>The complete tilings that place the job at index \<open>i\<close> first.\<close>

definition job_leaves ::
  "('t, 'p, 'j) tiling_api \<Rightarrow> real \<Rightarrow> real \<Rightarrow> 'j job_entry list \<Rightarrow> 't \<Rightarrow> nat \<Rightarrow> 't list" where
  "job_leaves api xsp ysp Jobs t' i =
     (case Jobs ! i of (X, Y, job, rjob) \<Rightarrow>
            concat (map (\<lambda>p. es_leaves api xsp ysp (take i Jobs @ drop (i + 1) Jobs)
                                (addJob api t' p (X + xsp) (Y + ysp) job))
                        (validAddPoints api t' (X + xsp) (Y + ysp)))
          @ (if X \<noteq> Y
             then concat (map (\<lambda>p. es_leaves api xsp ysp (take i Jobs @ drop (i + 1) Jobs)
                                (addJob api t' p (Y + xsp) (X + ysp) rjob))
                        (validAddPoints api t' (Y + xsp) (X + ysp)))
             else []))"

text \<open>
  The same without the rule for squares: every job is also placed in its rotated
  orientation, with its rotated handle.
\<close>

function all_leaves ::
  "('t, 'p, 'j) tiling_api \<Rightarrow> real \<Rightarrow> real \<Rightarrow> 'j job_entry list \<Rightarrow> 't \<Rightarrow> 't list" where
  "all_leaves api xsp ysp Jobs t =
     (if Jobs = [] then [t]
      else let t' = removeInlets api t (minDimension api Jobs) in
        concat (map (\<lambda>i. case Jobs ! i of (X, Y, job, rjob) \<Rightarrow>
            concat (map (\<lambda>p. all_leaves api xsp ysp (take i Jobs @ drop (i + 1) Jobs)
                                (addJob api t' p (X + xsp) (Y + ysp) job))
                        (validAddPoints api t' (X + xsp) (Y + ysp)))
          @ concat (map (\<lambda>p. all_leaves api xsp ysp (take i Jobs @ drop (i + 1) Jobs)
                                (addJob api t' p (Y + xsp) (X + ysp) rjob))
                        (validAddPoints api t' (Y + xsp) (X + ysp))))
          [0..<length Jobs]))"
  by pat_completeness auto
termination
  by (relation "measure (\<lambda>(api, xsp, ysp, Jobs, t). length Jobs)") auto

declare all_leaves.simps [simp del]

definition all_job_leaves ::
  "('t, 'p, 'j) tiling_api \<Rightarrow> real \<Rightarrow> real \<Rightarrow> 'j job_entry list \<Rightarrow> 't \<Rightarrow> nat \<Rightarrow> 't list" where
  "all_job_leaves api xsp ysp Jobs t' i =
     (case Jobs ! i of (X, Y, job, rjob) \<Rightarrow>
            concat (map (\<lambda>p. all_leaves api xsp ysp (take i Jobs @ drop (i + 1) Jobs)
                                (addJob api t' p (X + xsp) (Y + ysp) job))
                        (validAddPoints api t' (X + xsp) (Y + ysp)))
          @ concat (map (\<lambda>p. all_leaves api xsp ysp (take i Jobs @ drop (i + 1) Jobs)
                                (addJob api t' p (Y + xsp) (X + ysp) rjob))
                        (validAddPoints api t' (Y + xsp) (X + ysp))))"

definition all_search_leaves ::
  "('t, 'p, 'j) tiling_api \<Rightarrow> 'j job_entry list \<Rightarrow> real \<Rightarrow> real \<Rightarrow> real \<Rightarrow> real \<Rightarrow>
   't option \<Rightarrow> 't list" where
  "all_search_leaves api Jobs x y xsp ysp base =
     all_leaves api xsp ysp Jobs
       (case base of Some t \<Rightarrow> t | None \<Rightarrow> newTiling api x y xsp ysp)"

text \<open>
  The tiling module does not look at the job handles: \<open>sim\<close> relates tilings that
  differ in handles only, and related tilings have the same area, corners and add-points
  and stay related under the same operations.
\<close>

definition handle_blind :: "('t, 'p, 'j) tiling_api \<Rightarrow> ('t \<Rightarrow> 't \<Rightarrow> bool) \<Rightarrow> bool" where
  "handle_blind api sim =
     ((\<forall>t. sim t t) \<and>
      (\<forall>t u. sim t u \<longrightarrow>
         area api t = area api u \<and> corners api t = corners api u \<and>
         (\<forall>w h. validAddPoints api t w h = validAddPoints api u w h) \<and>
         (\<forall>m. sim (removeInlets api t m) (removeInlets api u m)) \<and>
         (\<forall>p w h j j'. sim (addJob api t p w h j) (addJob api u p w h j'))))"

text \<open>
  The order of the scores: \<open>a\<close> is at least as good as \<open>b\<close> when its area is smaller, or
  the areas are equal and it has no more corners; strictly better when it has fewer.
\<close>

definition score_le :: "('t, 'p, 'j) tiling_api \<Rightarrow> 't \<Rightarrow> 't \<Rightarrow> bool" where
  "score_le api a b =
     (area api a < area api b \<or> (area api a = area api b \<and> corners api a \<le> corners api b))"

definition strictly_better :: "('t, 'p, 'j) tiling_api \<Rightarrow> 't \<Rightarrow> 't \<Rightarrow> bool" where
  "strictly_better api a b =
     (area api a < area api b \<or> (area api a = area api b \<and> corners api a < corners api b))"

text \<open>The better of the best tiling so far and a new one, the old one on a tie.\<close>

definition better_tiling :: "('t, 'p, 'j) tiling_api \<Rightarrow> 't option \<Rightarrow> 't \<Rightarrow> 't option" where
  "better_tiling api cur t =
     (case cur of
        None \<Rightarrow> Some t
      | Some b \<Rightarrow> if strictly_better api t b then Some t else Some b)"

text \<open>The best score is the area of the best tiling, and infinite when there is none.\<close>

definition best_inv :: "('t, 'p, 'j) tiling_api \<Rightarrow> ('t, 'z) search_state_scheme \<Rightarrow> bool" where
  "best_inv api s =
     (case bestTiling s of
        None \<Rightarrow> bestScore s = PosInf
      | Some b \<Rightarrow> bestScore s = Score (area api b))"

text \<open>
  The timeout check of the exhaustive search never fires: no status is printed, or no
  timeout is set, or the clock never passes it.
\<close>

definition no_timeout :: "clock \<Rightarrow> real \<Rightarrow> real \<Rightarrow> bool \<Rightarrow> bool" where
  "no_timeout tm start timeout printStats =
     (\<not> printStats \<or> timeout \<le> 0 \<or> (\<forall>n. tm n - start \<le> timeout))"

text \<open>
  No status report divides by zero: the best tiling and the tilings \<open>L\<close> still to come
  have an area.
\<close>

definition printable ::
  "('t, 'p, 'j) tiling_api \<Rightarrow> ('t, 'z) search_state_scheme \<Rightarrow> 't list \<Rightarrow> bool" where
  "printable api s L =
     ((\<forall>b. bestTiling s = Some b \<longrightarrow> area api b \<noteq> 0) \<and> (\<forall>t\<in>set L. area api t \<noteq> 0))"

text \<open>
  A run \<open>r\<close> from state \<open>s\<close> over the tilings \<open>L\<close> either fails in a status report, on an
  area of zero, or succeeds, keeps the invariant, ends with the old best tiling or one of
  \<open>L\<close> and, when \<open>nt\<close> holds, with the best of them.
\<close>

definition tracks ::
  "('t, 'p, 'j) tiling_api \<Rightarrow> bool \<Rightarrow> bool \<Rightarrow> 't exh_state \<Rightarrow> error + 't exh_state \<Rightarrow>
   't list \<Rightarrow> bool" where
  "tracks api nt ps s r L =
     (best_inv api s \<longrightarrow>
        (r = Inl ZeroDivisionError \<and> ps \<and> \<not> printable api s L) \<or>
        (\<exists>s'. r = Inr s' \<and> best_inv api s' \<and>
              (bestTiling s' = bestTiling s \<or> (\<exists>b\<in>set L. bestTiling s' = Some b)) \<and>
              (nt \<longrightarrow> bestTiling s' = foldl (better_tiling api) (bestTiling s) L)))"

text \<open>A score is not above another one.\<close>

definition score_leq :: "score \<Rightarrow> score \<Rightarrow> bool" where
  "score_leq a b = (\<not> score_lt b a)"

text \<open>
  The thresholds that the claim on inlet pruning expects: for the job at each position of
  the order, the minimum dimension of the jobs from that position on.
\<close>

definition outstanding_thresholds ::
  "('t, 'p, 'j) tiling_api \<Rightarrow> 'j search_cfg \<Rightarrow> int \<Rightarrow> trial_random \<Rightarrow> real list" where
  "outstanding_thresholds api cfg exhaustiveSearchJobs rand =
     map (\<lambda>i. minDimension api (map (\<lambda>ix. jobs cfg ! ix) (drop i (joborder rand))))
       [0..<rs_M cfg exhaustiveSearchJobs]"

text \<open>
  From \<open>w\<close> to \<open>w'\<close> the best score has not grown, and the best tiling has changed
  only to a tiling whose area is the new best score and is strictly below the old one.
\<close>

definition improves :: "('t, 'p, 'j) tiling_api \<Rightarrow> ('t, 'y) search_state_scheme \<Rightarrow> ('t, 'z) search_state_scheme \<Rightarrow> bool" where
  "improves api w w' =
     (best_inv api w' \<and> score_leq (bestScore w') (bestScore w) \<and>
      (bestTiling w' \<noteq> bestTiling w \<longrightarrow>
         (\<exists>b. bestTiling w' = Some b \<and> bestScore w' = Score (area api b) \<and>
              score_lt (bestScore w') (bestScore w))))"

section \<open>Inputs for the examples\<close>


definition result_best :: "error + ('t, 'z) search_state_scheme \<Rightarrow> error + 't option \<times> score" where
  "result_best r = (case r of Inl e \<Rightarrow> Inl e | Inr s \<Rightarrow> Inr (bestTiling s, bestScore s))"

definition big3 :: "string job_entry list" where
  "big3 = [(6, 6, ''a'', ''ar''), (6, 6, ''b'', ''br''), (6, 6, ''c'', ''cr'')]"

definition late_clock :: clock where
  "late_clock n = (if n = 0 then 0 else 100 + real n / 1000)"

definition row_acb :: "(real \<times> real \<times> string) list" where
  "row_acb = [(1, 1, ''a''), (2, 2, ''c''), (1, 1, ''b'')]"

definition row_abc :: "(real \<times> real \<times> string) list" where
  "row_abc = [(1, 1, ''a''), (1, 1, ''b''), (2, 2, ''c'')]"

definition order_rand :: "nat list \<Rightarrow> trial_random" where
  "order_rand order = \<lparr>joborder = order, coin = (\<lambda>i. True), choice = (\<lambda>i. 0), tail_rnd = 1 / 2\<rparr>"

definition squares_cfg :: "string search_cfg" where
  "squares_cfg = TileSearch_init_cfg (\<lambda>n. 0) 0 (1 / 2) squares3 50 50 0 0 0"

definition oblongs_cfg :: "string search_cfg" where
  "oblongs_cfg = TileSearch_init_cfg (\<lambda>n. 0) 0 (1 / 2) oblongs2 50 50 0 0 0"

definition late_cfg :: "string search_cfg" where
  "late_cfg = TileSearch_init_cfg late_clock 0 (1 / 2) oblongs2 50 50 0 0 1"

definition big_cfg :: "string search_cfg" where
  "big_cfg = TileSearch_init_cfg (\<lambda>n. 0) 0 (1 / 2) big3 5 5 0 0 0"

definition worker_acb :: "(real \<times> real \<times> string) list worker_state" where
  "worker_acb =
     \<lparr>bestTiling = Some row_acb, bestScore = Score 8, placements = 1, lastCheckTime = 0,
      ticks = 2, foundBetter = True, placementsSinceLastCheck = 1, q = []\<rparr>"

definition tail_abc :: "(real \<times> real \<times> string) list exh_state" where
  "tail_abc =
     \<lparr>bestTiling = Some row_abc, bestScore = Score 8, placements = 0, lastCheckTime = 0,
      ticks = 3, permutations = 2\<rparr>"

definition row_sim :: "(real \<times> real \<times> string) list \<Rightarrow> (real \<times> real \<times> string) list \<Rightarrow> bool" where
  "row_sim a b = (map (\<lambda>r. (fst r, fst (snd r))) a = map (\<lambda>r. (fst r, fst (snd r))) b)"

text \<open>A panel with room for one job only: the row panel, without add-points once a job is placed.\<close>

definition single_panel :: "((real \<times> real \<times> string) list, nat, string) tiling_api" where
  "single_panel = row_panel\<lparr>validAddPoints := (\<lambda>t w h. if t = [] then [0] else [])\<rparr>"

section \<open>Lemmas\<close>


lemma es_leaves_unfold:
  "es_leaves api xsp ysp Jobs t =
     (if Jobs = [] then [t]
      else concat (map (job_leaves api xsp ysp Jobs (removeInlets api t (minDimension api Jobs)))
             [0..<length Jobs]))"
  by (subst es_leaves.simps) (simp only: job_leaves_def[abs_def] Let_def)

lemma tracks_leaf: "tracks api nt ps s (leaf_update api t f s) [t]"
  by (cases "bestTiling s"; cases "bestScore s")
     (auto simp: tracks_def leaf_update_def best_inv_def better_tiling_def strictly_better_def Let_def)

lemma tracks_prune: "tracks api nt ps s (Inr (prune f n s)) []"
  by (simp add: tracks_def prune_def best_inv_def split: option.splits)

lemma tracks_skip: "tracks api nt ps s (Inr s) []"
  by (simp add: tracks_def)

lemma tracks_seq:
  assumes a: "tracks api nt ps s r L1"
    and b: "\<And>s1. r = Inr s1 \<Longrightarrow> tracks api nt ps s1 (f s1) L2"
  shows "tracks api nt ps s (case r of Inl e \<Rightarrow> Inl e | Inr s1 \<Rightarrow> f s1) (L1 @ L2)"
  unfolding tracks_def
proof (intro impI)
  assume inv: "best_inv api s"
  from a inv consider
      (err) "r = Inl ZeroDivisionError" "ps" "\<not> printable api s L1"
    | (ok) s1 where "r = Inr s1" "best_inv api s1"
        "bestTiling s1 = bestTiling s \<or> (\<exists>b\<in>set L1. bestTiling s1 = Some b)"
        "nt \<longrightarrow> bestTiling s1 = foldl (better_tiling api) (bestTiling s) L1"
    unfolding tracks_def by blast
  then show "(case r of Inl e \<Rightarrow> Inl e | Inr s1 \<Rightarrow> f s1) = Inl ZeroDivisionError \<and> ps \<and>
               \<not> printable api s (L1 @ L2) \<or>
             (\<exists>s'. (case r of Inl e \<Rightarrow> Inl e | Inr s1 \<Rightarrow> f s1) = Inr s' \<and> best_inv api s' \<and>
                (bestTiling s' = bestTiling s \<or> (\<exists>b\<in>set (L1 @ L2). bestTiling s' = Some b)) \<and>
                (nt \<longrightarrow> bestTiling s' = foldl (better_tiling api) (bestTiling s) (L1 @ L2)))"
  proof cases
    case err
    then show ?thesis by (auto simp: printable_def)
  next
    case ok
    from b[OF ok(1)] ok(2) consider
        (err2) "f s1 = Inl ZeroDivisionError" "ps" "\<not> printable api s1 L2"
      | (ok2) s2 where "f s1 = Inr s2" "best_inv api s2"
          "bestTiling s2 = bestTiling s1 \<or> (\<exists>b\<in>set L2. bestTiling s2 = Some b)"
          "nt \<longrightarrow> bestTiling s2 = foldl (better_tiling api) (bestTiling s1) L2"
      unfolding tracks_def by blast
    then show ?thesis
    proof cases
      case err2
      have "\<not> printable api s (L1 @ L2)"
        using err2(3) ok(3) by (auto simp: printable_def)
      then show ?thesis using ok(1) err2 by simp
    next
      case ok2
      have "bestTiling s2 = bestTiling s \<or> (\<exists>b\<in>set (L1 @ L2). bestTiling s2 = Some b)"
        using ok(3) ok2(3) by auto
      then show ?thesis using ok(1,4) ok2 by auto
    qed
  qed
qed

lemma sync_check_result:
  "sync_check api tm cfg ps s = Inr (b, s') \<Longrightarrow>
     bestTiling s' = bestTiling s \<and> bestScore s' = bestScore s"
  by (auto simp: sync_check_def Let_def split: if_splits sum.splits)

lemma sync_check_error:
  "sync_check api tm cfg ps s = Inl e \<Longrightarrow>
     e = ZeroDivisionError \<and> ps \<and> (\<exists>b. bestTiling s = Some b \<and> area api b = 0)"
  by (auto simp: sync_check_def print_self_def Let_def split: if_splits sum.splits option.splits)

lemma sync_check_no_timeout:
  "no_timeout tm (startTime cfg) (searchTimeout cfg) ps \<Longrightarrow>
     sync_check api tm cfg ps s = Inr (b, s') \<Longrightarrow> \<not> b"
  apply (auto simp: sync_check_def no_timeout_def Let_def split: if_splits sum.splits)
  apply (drule_tac x="Suc (Suc (ticks s))" in spec)
  apply simp
  done

lemma tracks_sync:
  assumes r: "\<And>s'. sync_check api tm cfg ps s = Inr (False, s') \<Longrightarrow> tracks api nt ps s' (r s') L"
    and nt: "nt \<Longrightarrow> no_timeout tm (startTime cfg) (searchTimeout cfg) ps"
  shows "tracks api nt ps s
           (case sync_check api tm cfg ps s of
              Inl e \<Rightarrow> Inl e
            | Inr (True, s3) \<Rightarrow> Inr s3
            | Inr (False, s3) \<Rightarrow> r s3) L"
proof (cases "sync_check api tm cfg ps s")
  case (Inl e)
  then show ?thesis using sync_check_error[OF Inl]
    by (auto simp: tracks_def printable_def)
next
  case (Inr bs)
  obtain b s' where bs: "bs = (b, s')" by force
  note sc = Inr[unfolded bs]
  note same = sync_check_result[OF sc]
  show ?thesis
  proof (cases b)
    case True
    then have "\<not> nt" using nt sync_check_no_timeout[OF _ sc] by blast
    then show ?thesis using sc True same
      by (auto simp: tracks_def best_inv_def split: option.splits)
  next
    case False
    have t: "tracks api nt ps s' (r s') L" using r sc False by simp
    have inv: "best_inv api s' = best_inv api s"
      using same by (simp add: best_inv_def split: option.splits)
    have pr: "printable api s' L = printable api s L"
      using same by (simp add: printable_def)
    have "tracks api nt ps s (r s') L"
      using t same unfolding tracks_def inv pr by simp
    then show ?thesis using sc False by simp
  qed
qed

lemma es_tracks:
  fixes api :: "('t, 'p, 'j) tiling_api"
  shows "\<forall>t. tiles = Some t \<longrightarrow>
           tracks api (no_timeout tm (startTime cfg) (searchTimeout cfg) ps) ps s
             (es_run api tm cfg Jobs tiles f ps s)
             (es_leaves api (xspacing cfg) (yspacing cfg) Jobs t)"
    and "tracks api (no_timeout tm (startTime cfg) (searchTimeout cfg) ps) ps s
           (es_job_loop api tm cfg Jobs t' f ps i s)
           (concat (map (job_leaves api (xspacing cfg) (yspacing cfg) Jobs t') [i..<length Jobs]))"
    and "tracks api (no_timeout tm (startTime cfg) (searchTimeout cfg) ps) ps s
           (es_point_loop api tm cfg rem t' w h j f ps p0 pts s)
           (concat (map (\<lambda>p. es_leaves api (xspacing cfg) (yspacing cfg) rem (addJob api t' p w h j)) pts))"
proof (induction api tm cfg Jobs tiles f ps s and api tm cfg Jobs t' f ps i s
         and api tm cfg rem t' w h j f ps p0 pts s
       rule: es_run_es_job_loop_es_point_loop.induct)
  case (1 api tm cfg Jobs tiles firstAddPoint printStats s)
  show ?case
  proof (intro allI impI)
    fix t assume t: "tiles = Some t"
    show "tracks api (no_timeout tm (startTime cfg) (searchTimeout cfg) printStats) printStats s
            (es_run api tm cfg Jobs tiles firstAddPoint printStats s)
            (es_leaves api (xspacing cfg) (yspacing cfg) Jobs t)"
    proof (cases "Jobs = []")
      case True
      then show ?thesis using t by (simp add: es_run.simps es_leaves_unfold tracks_leaf)
    next
      case False
      then show ?thesis using t "1.IH"[OF t False] by (simp add: es_run.simps es_leaves_unfold)
    qed
  qed
next
  case (2 api tm cfg Jobs tiles firstAddPoint printStats job_ix s)
  show ?case
  proof (cases "job_ix < length Jobs")
    case False
    then show ?thesis by (simp add: es_job_loop.simps tracks_skip)
  next
    case lt: True
    obtain X Y job rjob where J: "Jobs ! job_ix = (X, Y, job, rjob)"
      by (metis prod_cases4)
    define rem where "rem = take job_ix Jobs @ drop (job_ix + 1) Jobs"
    define ap1 where "ap1 = validAddPoints api tiles (X + xspacing cfg) (Y + yspacing cfg)"
    define ap2 where "ap2 = (if X \<noteq> Y then validAddPoints api tiles (Y + xspacing cfg) (X + yspacing cfg) else [])"
    define L where "L = (\<lambda>w h j pts. concat (map (\<lambda>p. es_leaves api (xspacing cfg) (yspacing cfg) rem (addJob api tiles p w h j)) pts))"
    define V where "V = (\<lambda>w h j pts s. if pts \<noteq> []
                    then es_point_loop api tm cfg rem tiles w h j firstAddPoint printStats (hd pts) pts s
                    else Inr (prune firstAddPoint (length rem) s))"
    define rest where "rest = concat (map (job_leaves api (xspacing cfg) (yspacing cfg) Jobs tiles) [job_ix + 1..<length Jobs])"
    let ?nt = "no_timeout tm (startTime cfg) (searchTimeout cfg) printStats"
    have v1: "tracks api ?nt printStats s (V (X + xspacing cfg) (Y + yspacing cfg) job ap1 s)
                (L (X + xspacing cfg) (Y + yspacing cfg) job ap1)"
    proof (cases "ap1 = []")
      case True
      then show ?thesis by (simp add: V_def L_def tracks_prune)
    next
      case False
      then show ?thesis
        using "2.IH"(1)[OF lt J[symmetric] refl refl rem_def ap1_def ap2_def False]
        by (simp add: V_def L_def)
    qed
    have v2: "tracks api ?nt printStats s1 (V (Y + xspacing cfg) (X + yspacing cfg) rjob ap2 s1)
                (L (Y + xspacing cfg) (X + yspacing cfg) rjob ap2)"
      if "V (X + xspacing cfg) (Y + yspacing cfg) job ap1 s = Inr s1" for s1
    proof (cases "ap2 = []")
      case True
      then show ?thesis by (simp add: V_def L_def tracks_prune)
    next
      case False
      then show ?thesis
        using "2.IH"(2)[OF lt J[symmetric] refl refl rem_def ap1_def ap2_def _ False, of s1] that
        by (simp add: V_def L_def)
    qed
    have v3: "tracks api ?nt printStats s2
                (case sync_check api tm cfg printStats s2 of
                   Inl e \<Rightarrow> Inl e
                 | Inr (True, s3) \<Rightarrow> Inr s3
                 | Inr (False, s3) \<Rightarrow> es_job_loop api tm cfg Jobs tiles firstAddPoint printStats (job_ix + 1) s3)
                rest"
      if a: "V (X + xspacing cfg) (Y + yspacing cfg) job ap1 s = Inr s1"
        and b: "V (Y + xspacing cfg) (X + yspacing cfg) rjob ap2 s1 = Inr s2" for s1 s2
    proof (rule tracks_sync)
      fix s3 assume sc: "sync_check api tm cfg printStats s2 = Inr (False, s3)"
      show "tracks api ?nt printStats s3
              (es_job_loop api tm cfg Jobs tiles firstAddPoint printStats (job_ix + 1) s3) rest"
        using "2.IH"(3)[OF lt J[symmetric] refl refl rem_def ap1_def ap2_def
                a[unfolded V_def] b[unfolded V_def] sc refl refl]
        by (simp add: rest_def)
    qed simp
    have run: "es_job_loop api tm cfg Jobs tiles firstAddPoint printStats job_ix s =
        (case V (X + xspacing cfg) (Y + yspacing cfg) job ap1 s of
           Inl e \<Rightarrow> Inl e
         | Inr s1 \<Rightarrow>
            (case V (Y + xspacing cfg) (X + yspacing cfg) rjob ap2 s1 of
               Inl e \<Rightarrow> Inl e
             | Inr s2 \<Rightarrow>
                (case sync_check api tm cfg printStats s2 of
                   Inl e \<Rightarrow> Inl e
                 | Inr (True, s3) \<Rightarrow> Inr s3
                 | Inr (False, s3) \<Rightarrow> es_job_loop api tm cfg Jobs tiles firstAddPoint printStats (job_ix + 1) s3)))"
      by (subst es_job_loop.simps) (simp only: lt J V_def rem_def ap1_def ap2_def Let_def if_True prod.case)
    have lv: "concat (map (job_leaves api (xspacing cfg) (yspacing cfg) Jobs tiles) [job_ix..<length Jobs]) =
        L (X + xspacing cfg) (Y + yspacing cfg) job ap1 @ (L (Y + xspacing cfg) (X + yspacing cfg) rjob ap2 @ rest)"
      using lt by (simp add: upt_conv_Cons job_leaves_def J L_def rem_def ap1_def ap2_def rest_def)
    show ?thesis
      unfolding run lv
      by (rule tracks_seq[OF v1]) (rule tracks_seq[OF v2], assumption, rule v3, assumption+)
  qed
next
  case (3 api tm cfg remaining_jobs tiles w h j firstAddPoint printStats p0 pts s)
  show ?case
  proof (cases pts)
    case Nil
    then show ?thesis by (simp add: es_point_loop.simps tracks_skip)
  next
    case (Cons ix rest)
    have a: "tracks api (no_timeout tm (startTime cfg) (searchTimeout cfg) printStats) printStats s
              (es_run api tm cfg remaining_jobs (Some (addJob api tiles ix w h j))
                 (firstAddPoint \<and> ix = p0) printStats s)
              (es_leaves api (xspacing cfg) (yspacing cfg) remaining_jobs (addJob api tiles ix w h j))"
      using "3.IH"(1)[OF Cons] by simp
    show ?thesis
      unfolding Cons
      apply (subst es_point_loop.simps)
      apply simp
      apply (rule tracks_seq[OF a])
      apply (rule "3.IH"(2)[OF Cons])
      apply assumption
      done
  qed
qed

lemma best_inv_init: "best_inv api (ExhaustiveSearch_init_state k)"
  by (simp add: best_inv_def ExhaustiveSearch_init_state_def)

lemma exhaustive_search_tracks:
  "(exhaustive_search api tm k rnd Jobs x y xsp ysp timeout base ps = Inl ZeroDivisionError \<and> ps \<and>
      \<not> (\<forall>t\<in>set (search_leaves api Jobs x y xsp ysp base). area api t \<noteq> 0)) \<or>
   (\<exists>s'. exhaustive_search api tm k rnd Jobs x y xsp ysp timeout base ps = Inr s' \<and>
        best_inv api s' \<and>
        (no_timeout tm (tm k) timeout ps \<longrightarrow>
           bestTiling s' = foldl (better_tiling api) None (search_leaves api Jobs x y xsp ysp base)))"
proof -
  let ?cfg = "TileSearch_init_cfg tm k rnd Jobs x y xsp ysp timeout"
  have base: "es_leaves api (xspacing ?cfg) (yspacing ?cfg) Jobs (es_baseTiling api ?cfg base)
                = search_leaves api Jobs x y xsp ysp base"
    by (cases base) (simp_all add: search_leaves_def es_baseTiling_def TileSearch_init_cfg_def)
  have "tracks api (no_timeout tm (startTime ?cfg) (searchTimeout ?cfg) ps) ps
          (ExhaustiveSearch_init_state k)
          (es_run api tm ?cfg Jobs (Some (es_baseTiling api ?cfg base)) True ps
             (ExhaustiveSearch_init_state k))
          (es_leaves api (xspacing ?cfg) (yspacing ?cfg) Jobs (es_baseTiling api ?cfg base))"
    using es_tracks(1)[of "Some (es_baseTiling api ?cfg base)" api tm ?cfg ps
            "ExhaustiveSearch_init_state k" Jobs True]
    by simp
  then have "tracks api (no_timeout tm (startTime ?cfg) (searchTimeout ?cfg) ps) ps
          (ExhaustiveSearch_init_state k)
          (es_run api tm ?cfg Jobs (Some (es_baseTiling api ?cfg base)) True ps
             (ExhaustiveSearch_init_state k))
          (search_leaves api Jobs x y xsp ysp base)"
    by (simp only: base)
  then show ?thesis
    using best_inv_init[of api k]
    unfolding tracks_def exhaustive_search_def ExhaustiveSearch_run_def Let_def printable_def
    by (fastforce simp: ExhaustiveSearch_init_state_def TileSearch_init_cfg_def)
qed

lemma exhaustive_search_quiet:
  "\<exists>s'. exhaustive_search api tm k rnd Jobs x y xsp ysp timeout base False = Inr s' \<and>
        best_inv api s'"
  using exhaustive_search_tracks[of api tm k rnd Jobs x y xsp ysp timeout base False]
  by blast

lemma foldl_better_tiling:
  "foldl (better_tiling api) cur L = r \<Longrightarrow>
     (r = None \<longleftrightarrow> cur = None \<and> L = []) \<and>
     (\<forall>b. r = Some b \<longrightarrow>
        (cur = Some b \<or> b \<in> set L) \<and> (\<forall>t\<in>set L. score_le api b t) \<and>
        (\<forall>c. cur = Some c \<longrightarrow> score_le api b c))"
proof (induction L arbitrary: cur)
  case Nil
  then show ?case by (auto simp: score_le_def)
next
  case (Cons t L)
  let ?c = "better_tiling api cur t"
  have step: "foldl (better_tiling api) ?c L = r" using Cons.prems by simp
  note IH = Cons.IH[OF step]
  have "\<exists>c. ?c = Some c \<and> (c = t \<or> cur = Some c) \<and> score_le api c t \<and>
            (\<forall>d. cur = Some d \<longrightarrow> score_le api c d)"
  proof (cases cur)
    case None
    then show ?thesis by (simp add: better_tiling_def score_le_def)
  next
    case (Some a)
    show ?thesis
    proof (cases "strictly_better api t a")
      case True
      then show ?thesis using Some
        by (auto simp: better_tiling_def score_le_def strictly_better_def)
    next
      case False
      then show ?thesis using Some
        by (auto simp: better_tiling_def score_le_def strictly_better_def not_less)
    qed
  qed
  then obtain c where c: "?c = Some c" "c = t \<or> cur = Some c" "score_le api c t"
      "\<forall>d. cur = Some d \<longrightarrow> score_le api c d"
    by blast
  have trans: "\<And>a b d. score_le api a b \<Longrightarrow> score_le api b d \<Longrightarrow> score_le api a d"
    by (auto simp: score_le_def)
  show ?case
  proof (intro conjI allI impI)
    show "(r = None) = (cur = None \<and> t # L = [])" using IH c by auto
  next
    fix b assume b: "r = Some b"
    then show "cur = Some b \<or> b \<in> set (t # L)" using IH c by auto
  next
    fix b assume b: "r = Some b"
    have bc: "score_le api b c" using IH b c(1) by auto
    show "\<forall>t\<in>set (t # L). score_le api b t"
      using IH b trans[OF bc c(3)] by auto
  next
    fix b d assume b: "r = Some b" and d: "cur = Some d"
    have bc: "score_le api b c" using IH b c(1) by auto
    show "score_le api b d" using trans[OF bc] c(4) d by auto
  qed
qed

lemma score_lt_irrefl: "\<not> score_lt a a"
  by (cases a) simp_all

lemma score_lt_trans: "score_lt a b \<Longrightarrow> score_lt b c \<Longrightarrow> score_lt a c"
  by (cases a; cases b; cases c) simp_all

lemma score_lt_asym: "score_lt a b \<Longrightarrow> \<not> score_lt b a"
  by (cases a; cases b) simp_all

lemma score_lt_leq_trans: "score_lt a b \<Longrightarrow> score_leq b c \<Longrightarrow> score_lt a c"
  unfolding score_leq_def by (cases a; cases b; cases c) simp_all

lemma score_leq_trans: "score_leq a b \<Longrightarrow> score_leq b c \<Longrightarrow> score_leq a c"
  unfolding score_leq_def by (cases a; cases b; cases c) simp_all

lemma improves_refl: "best_inv api w \<Longrightarrow> improves api w w"
  by (simp add: improves_def score_leq_def score_lt_irrefl)

lemma improves_trans:
  assumes "improves api w w1" "improves api w1 w2"
  shows "improves api w w2"
proof -
  have inv1: "best_inv api w1" and inv2: "best_inv api w2"
    using assms by (simp_all add: improves_def)
  have le: "score_leq (bestScore w2) (bestScore w)"
    using assms score_leq_trans by (auto simp: improves_def)
  have strict: "\<exists>b. bestTiling w2 = Some b \<and> bestScore w2 = Score (area api b) \<and>
              score_lt (bestScore w2) (bestScore w)" if ne: "bestTiling w2 \<noteq> bestTiling w"
  proof (cases "bestTiling w2 = bestTiling w1")
    case True
    then have sc: "bestScore w2 = bestScore w1"
      using inv1 inv2 by (auto simp: best_inv_def split: option.splits)
    from True ne have "bestTiling w1 \<noteq> bestTiling w" by simp
    with assms(1) show ?thesis using True sc by (auto simp: improves_def)
  next
    case False
    with assms(2) obtain b where b: "bestTiling w2 = Some b" "bestScore w2 = Score (area api b)"
        "score_lt (bestScore w2) (bestScore w1)"
      by (auto simp: improves_def)
    have "score_leq (bestScore w1) (bestScore w)" using assms(1) by (simp add: improves_def)
    then show ?thesis using b score_lt_leq_trans by blast
  qed
  show ?thesis using inv2 le strict by (simp add: improves_def)
qed

lemma rs_trial_improves:
  assumes "best_inv api w"
  shows "\<exists>w'. rs_trial api tm cfg esj base rand w = Inr w' \<and> improves api w w'"
proof (cases "rs_tail api tm cfg esj base rand (ticks w)")
  case None
  then show ?thesis using assms
    by (simp add: rs_trial_def rs_count_def improves_def best_inv_def score_leq_def score_lt_irrefl
          split: option.splits)
next
  case (Some r)
  then obtain cur Jobs' where
    r: "r = exhaustive_search api tm (ticks w) (tail_rnd rand) Jobs'
              (panel_x cfg) (panel_y cfg) (xspacing cfg) (yspacing cfg) 0 (Some cur) False"
    by (auto simp: rs_tail_def split: option.splits if_splits)
  obtain fs where fs: "r = Inr fs" "best_inv api fs"
    using exhaustive_search_quiet[of api tm "ticks w" "tail_rnd rand" Jobs'
            "panel_x cfg" "panel_y cfg" "xspacing cfg" "yspacing cfg" 0 "Some cur"]
    unfolding r by blast
  show ?thesis
  proof (cases "score_lt (bestScore fs) (bestScore w)")
    case True
    then obtain a where a: "bestScore fs = Score a" by (cases "bestScore fs") simp_all
    then obtain b where b: "bestTiling fs = Some b" "a = area api b"
      using fs(2) by (auto simp: best_inv_def split: option.splits)
    show ?thesis using Some fs(1) True a b assms
      by (auto simp: rs_trial_def rs_count_def improves_def best_inv_def score_leq_def
            Let_def score_lt_asym split: option.splits)
  next
    case False
    then show ?thesis using Some fs(1) assms
      by (simp add: rs_trial_def rs_count_def improves_def best_inv_def score_leq_def Let_def
            score_lt_irrefl split: option.splits)
  qed
qed

lemma rs_sync_best:
  "rs_sync tm cfg w = (b, w') \<Longrightarrow> bestTiling w' = bestTiling w \<and> bestScore w' = bestScore w"
  by (auto simp: rs_sync_def Let_def split: if_splits)

lemma rs_sync_improves:
  "rs_sync tm cfg w = (b, w') \<Longrightarrow> best_inv api w \<Longrightarrow> improves api w w'"
  using rs_sync_best[of tm cfg w b w']
  by (simp add: improves_def best_inv_def score_leq_def score_lt_irrefl split: option.splits)

lemma summary_fails: "\<exists>e. summary tried computeTime = Inl e"
  by (simp add: summary_def)

lemma place_random_append:
  "place_random api cfg rand m pos (xs @ ys) t =
     (case place_random api cfg rand m pos xs t of
        None \<Rightarrow> None
      | Some t' \<Rightarrow> place_random api cfg rand m (pos + length xs) ys t')"
  by (induction xs arbitrary: pos t) (auto simp: Let_def split: option.splits)

lemma place_random_logged:
  "place_random (logged api) cfg rand m pos xs tg = Some r \<Longrightarrow>
     snd r = snd tg @ replicate (length xs) m"
proof (induction xs arbitrary: pos tg)
  case Nil
  then show ?case by simp
next
  case (Cons ix xs)
  let ?t1 = "removeInlets (logged api) tg m"
  let ?ap = "chosen_addpoints (logged api) cfg (coin rand pos) (jobs cfg ! ix) ?t1"
  let ?t2 = "chosen_addJob (logged api) cfg (coin rand pos) (jobs cfg ! ix)
               (?ap ! (choice rand pos mod length ?ap)) ?t1"
  from Cons.prems have ne: "?ap \<noteq> []" and rec: "place_random (logged api) cfg rand m (pos + 1) xs ?t2 = Some r"
    by (auto simp: Let_def split: if_splits)
  have "snd ?t2 = snd tg @ [m]"
    by (cases "jobs cfg ! ix") (simp add: chosen_addJob_def logged_def)
  with Cons.IH[OF rec] show ?case by (simp add: replicate_append_same)
qed

lemma all_leaves_unfold:
  "all_leaves api xsp ysp Jobs t =
     (if Jobs = [] then [t]
      else concat (map (all_job_leaves api xsp ysp Jobs (removeInlets api t (minDimension api Jobs)))
             [0..<length Jobs]))"
  by (subst all_leaves.simps) (simp only: all_job_leaves_def[abs_def] Let_def)

lemma job_leaves_mem:
  "Jobs ! i = (X, Y, job, rjob) \<Longrightarrow>
   b \<in> set (job_leaves api xsp ysp Jobs t' i) \<longleftrightarrow>
     ((\<exists>p\<in>set (validAddPoints api t' (X + xsp) (Y + ysp)).
         b \<in> set (es_leaves api xsp ysp (take i Jobs @ drop (i + 1) Jobs)
                    (addJob api t' p (X + xsp) (Y + ysp) job))) \<or>
      (X \<noteq> Y \<and>
       (\<exists>p\<in>set (validAddPoints api t' (Y + xsp) (X + ysp)).
         b \<in> set (es_leaves api xsp ysp (take i Jobs @ drop (i + 1) Jobs)
                    (addJob api t' p (Y + xsp) (X + ysp) rjob)))))"
  by (auto simp: job_leaves_def)

lemma all_job_leaves_mem:
  "Jobs ! i = (X, Y, job, rjob) \<Longrightarrow>
   b \<in> set (all_job_leaves api xsp ysp Jobs t' i) \<longleftrightarrow>
     ((\<exists>p\<in>set (validAddPoints api t' (X + xsp) (Y + ysp)).
         b \<in> set (all_leaves api xsp ysp (take i Jobs @ drop (i + 1) Jobs)
                    (addJob api t' p (X + xsp) (Y + ysp) job))) \<or>
      (\<exists>p\<in>set (validAddPoints api t' (Y + xsp) (X + ysp)).
         b \<in> set (all_leaves api xsp ysp (take i Jobs @ drop (i + 1) Jobs)
                    (addJob api t' p (Y + xsp) (X + ysp) rjob))))"
  by (auto simp: all_job_leaves_def)

lemma es_leaves_mem:
  assumes "Jobs \<noteq> []"
  shows "b \<in> set (es_leaves api xsp ysp Jobs u) \<longleftrightarrow>
     (\<exists>i<length Jobs. \<exists>X Y job rjob. Jobs ! i = (X, Y, job, rjob) \<and>
        ((\<exists>p\<in>set (validAddPoints api (removeInlets api u (minDimension api Jobs)) (X + xsp) (Y + ysp)).
            b \<in> set (es_leaves api xsp ysp (take i Jobs @ drop (i + 1) Jobs)
                       (addJob api (removeInlets api u (minDimension api Jobs)) p (X + xsp) (Y + ysp) job))) \<or>
         (X \<noteq> Y \<and>
          (\<exists>p\<in>set (validAddPoints api (removeInlets api u (minDimension api Jobs)) (Y + xsp) (X + ysp)).
            b \<in> set (es_leaves api xsp ysp (take i Jobs @ drop (i + 1) Jobs)
                       (addJob api (removeInlets api u (minDimension api Jobs)) p (Y + xsp) (X + ysp) rjob))))))"
    (is "?l \<longleftrightarrow> ?r")
proof -
  let ?u' = "removeInlets api u (minDimension api Jobs)"
  have l: "?l \<longleftrightarrow> (\<exists>i<length Jobs. b \<in> set (job_leaves api xsp ysp Jobs ?u' i))"
    using assms by (subst es_leaves_unfold) auto
  show ?thesis
  proof
    assume ?l
    then obtain i where i: "i < length Jobs" "b \<in> set (job_leaves api xsp ysp Jobs ?u' i)"
      using l by blast
    obtain X Y job rjob where J: "Jobs ! i = (X, Y, job, rjob)" by (metis prod_cases4)
    show ?r using i J job_leaves_mem[OF J, of b api xsp ysp ?u'] by blast
  next
    assume ?r
    then obtain i X Y job rjob where i: "i < length Jobs" and J: "Jobs ! i = (X, Y, job, rjob)"
      and m: "(\<exists>p\<in>set (validAddPoints api ?u' (X + xsp) (Y + ysp)).
            b \<in> set (es_leaves api xsp ysp (take i Jobs @ drop (i + 1) Jobs)
                       (addJob api ?u' p (X + xsp) (Y + ysp) job))) \<or>
         (X \<noteq> Y \<and>
          (\<exists>p\<in>set (validAddPoints api ?u' (Y + xsp) (X + ysp)).
            b \<in> set (es_leaves api xsp ysp (take i Jobs @ drop (i + 1) Jobs)
                       (addJob api ?u' p (Y + xsp) (X + ysp) rjob))))"
      by blast
    have "b \<in> set (job_leaves api xsp ysp Jobs ?u' i)"
      using m unfolding job_leaves_mem[OF J] .
    then show ?l using l i by blast
  qed
qed

lemma all_leaves_mem:
  assumes "Jobs \<noteq> []"
  shows "b \<in> set (all_leaves api xsp ysp Jobs u) \<longleftrightarrow>
     (\<exists>i<length Jobs. \<exists>X Y job rjob. Jobs ! i = (X, Y, job, rjob) \<and>
        ((\<exists>p\<in>set (validAddPoints api (removeInlets api u (minDimension api Jobs)) (X + xsp) (Y + ysp)).
            b \<in> set (all_leaves api xsp ysp (take i Jobs @ drop (i + 1) Jobs)
                       (addJob api (removeInlets api u (minDimension api Jobs)) p (X + xsp) (Y + ysp) job))) \<or>
         (\<exists>p\<in>set (validAddPoints api (removeInlets api u (minDimension api Jobs)) (Y + xsp) (X + ysp)).
            b \<in> set (all_leaves api xsp ysp (take i Jobs @ drop (i + 1) Jobs)
                       (addJob api (removeInlets api u (minDimension api Jobs)) p (Y + xsp) (X + ysp) rjob)))))"
    (is "?l \<longleftrightarrow> ?r")
proof -
  let ?u' = "removeInlets api u (minDimension api Jobs)"
  have l: "?l \<longleftrightarrow> (\<exists>i<length Jobs. b \<in> set (all_job_leaves api xsp ysp Jobs ?u' i))"
    using assms by (subst all_leaves_unfold) auto
  show ?thesis
  proof
    assume ?l
    then obtain i where i: "i < length Jobs" "b \<in> set (all_job_leaves api xsp ysp Jobs ?u' i)"
      using l by blast
    obtain X Y job rjob where J: "Jobs ! i = (X, Y, job, rjob)" by (metis prod_cases4)
    show ?r using i J all_job_leaves_mem[OF J, of b api xsp ysp ?u'] by blast
  next
    assume ?r
    then obtain i X Y job rjob where i: "i < length Jobs" and J: "Jobs ! i = (X, Y, job, rjob)"
      and m: "(\<exists>p\<in>set (validAddPoints api ?u' (X + xsp) (Y + ysp)).
            b \<in> set (all_leaves api xsp ysp (take i Jobs @ drop (i + 1) Jobs)
                       (addJob api ?u' p (X + xsp) (Y + ysp) job))) \<or>
         (\<exists>p\<in>set (validAddPoints api ?u' (Y + xsp) (X + ysp)).
            b \<in> set (all_leaves api xsp ysp (take i Jobs @ drop (i + 1) Jobs)
                       (addJob api ?u' p (Y + xsp) (X + ysp) rjob)))"
      by blast
    have "b \<in> set (all_job_leaves api xsp ysp Jobs ?u' i)"
      using m unfolding all_job_leaves_mem[OF J] .
    then show ?l using l i by blast
  qed
qed

lemma es_leaves_Nil: "es_leaves api xsp ysp [] t = [t]"
  by (simp add: es_leaves.simps)

lemma all_leaves_Nil: "all_leaves api xsp ysp [] t = [t]"
  by (simp add: all_leaves.simps)

lemma es_leaves_subset:
  "b \<in> set (es_leaves api xsp ysp Jobs t) \<Longrightarrow> b \<in> set (all_leaves api xsp ysp Jobs t)"
proof (induction "length Jobs" arbitrary: Jobs t rule: less_induct)
  case less
  show ?case
  proof (cases "Jobs = []")
    case True
    then show ?thesis using less.prems by (simp add: es_leaves_Nil all_leaves_Nil)
  next
    case False
    from less.prems obtain i X Y job rjob where i: "i < length Jobs" "Jobs ! i = (X, Y, job, rjob)"
      and alt: "(\<exists>p\<in>set (validAddPoints api (removeInlets api t (minDimension api Jobs)) (X + xsp) (Y + ysp)).
            b \<in> set (es_leaves api xsp ysp (take i Jobs @ drop (i + 1) Jobs)
                       (addJob api (removeInlets api t (minDimension api Jobs)) p (X + xsp) (Y + ysp) job))) \<or>
         (X \<noteq> Y \<and>
          (\<exists>p\<in>set (validAddPoints api (removeInlets api t (minDimension api Jobs)) (Y + xsp) (X + ysp)).
            b \<in> set (es_leaves api xsp ysp (take i Jobs @ drop (i + 1) Jobs)
                       (addJob api (removeInlets api t (minDimension api Jobs)) p (Y + xsp) (X + ysp) rjob))))"
      unfolding es_leaves_mem[OF False] by blast
    have len: "length (take i Jobs @ drop (i + 1) Jobs) < length Jobs" using i(1) by simp
    note IH = less.hyps[OF len]
    show ?thesis
      unfolding all_leaves_mem[OF False]
      using i alt IH by blast
  qed
qed

lemma all_leaves_sim:
  assumes hb: "handle_blind api sim"
  shows "sim t u \<Longrightarrow> a \<in> set (all_leaves api xsp ysp Jobs t) \<Longrightarrow>
         \<exists>b\<in>set (es_leaves api xsp ysp Jobs u). sim a b"
proof (induction "length Jobs" arbitrary: Jobs t u rule: less_induct)
  case less
  show ?case
  proof (cases "Jobs = []")
    case True
    then show ?thesis using less.prems by (simp add: es_leaves_Nil all_leaves_Nil)
  next
    case False
    let ?t' = "removeInlets api t (minDimension api Jobs)"
    let ?u' = "removeInlets api u (minDimension api Jobs)"
    have s': "sim ?t' ?u'" using hb less.prems(1) unfolding handle_blind_def by blast
    have vp: "\<And>w h. validAddPoints api ?t' w h = validAddPoints api ?u' w h"
      using hb s' unfolding handle_blind_def by blast
    have aj: "\<And>p w h j j'. sim (addJob api ?t' p w h j) (addJob api ?u' p w h j')"
      using hb s' unfolding handle_blind_def by blast
    from less.prems(2) obtain i X Y job rjob where i: "i < length Jobs" "Jobs ! i = (X, Y, job, rjob)"
      and alt: "(\<exists>p\<in>set (validAddPoints api ?t' (X + xsp) (Y + ysp)).
            a \<in> set (all_leaves api xsp ysp (take i Jobs @ drop (i + 1) Jobs)
                       (addJob api ?t' p (X + xsp) (Y + ysp) job))) \<or>
          (\<exists>p\<in>set (validAddPoints api ?t' (Y + xsp) (X + ysp)).
            a \<in> set (all_leaves api xsp ysp (take i Jobs @ drop (i + 1) Jobs)
                       (addJob api ?t' p (Y + xsp) (X + ysp) rjob)))"
      unfolding all_leaves_mem[OF False] by blast
    let ?rem = "take i Jobs @ drop (i + 1) Jobs"
    have len: "length ?rem < length Jobs" using i(1) by simp
    note IH = less.hyps[OF len]
    from alt show ?thesis
    proof
      assume "\<exists>p\<in>set (validAddPoints api ?t' (X + xsp) (Y + ysp)).
            a \<in> set (all_leaves api xsp ysp ?rem (addJob api ?t' p (X + xsp) (Y + ysp) job))"
      then obtain p where p: "p \<in> set (validAddPoints api ?u' (X + xsp) (Y + ysp))"
          "a \<in> set (all_leaves api xsp ysp ?rem (addJob api ?t' p (X + xsp) (Y + ysp) job))"
        using vp by auto
      from IH[OF aj[where j' = job] p(2)] obtain b where
        b: "b \<in> set (es_leaves api xsp ysp ?rem (addJob api ?u' p (X + xsp) (Y + ysp) job))" "sim a b"
        by blast
      have "b \<in> set (es_leaves api xsp ysp Jobs u)"
        unfolding es_leaves_mem[OF False] using i p(1) b(1) by blast
      then show ?thesis using b(2) by blast
    next
      assume "\<exists>p\<in>set (validAddPoints api ?t' (Y + xsp) (X + ysp)).
            a \<in> set (all_leaves api xsp ysp ?rem (addJob api ?t' p (Y + xsp) (X + ysp) rjob))"
      then obtain p where p: "p \<in> set (validAddPoints api ?u' (Y + xsp) (X + ysp))"
          "a \<in> set (all_leaves api xsp ysp ?rem (addJob api ?t' p (Y + xsp) (X + ysp) rjob))"
        using vp by auto
      show ?thesis
      proof (cases "X = Y")
        case False
        from IH[OF aj[where j' = rjob] p(2)] obtain b where
          b: "b \<in> set (es_leaves api xsp ysp ?rem (addJob api ?u' p (Y + xsp) (X + ysp) rjob))" "sim a b"
          by blast
        have "b \<in> set (es_leaves api xsp ysp Jobs u)"
          unfolding es_leaves_mem[OF \<open>Jobs \<noteq> []\<close>] using i p(1) b(1) False by blast
        then show ?thesis using b(2) by blast
      next
        case True
        from IH[OF aj[where j' = job] p(2)] obtain b where
          b: "b \<in> set (es_leaves api xsp ysp ?rem (addJob api ?u' p (Y + xsp) (X + ysp) job))" "sim a b"
          by blast
        have p': "p \<in> set (validAddPoints api ?u' (X + xsp) (Y + ysp))"
          using p(1) True by simp
        have b': "b \<in> set (es_leaves api xsp ysp ?rem (addJob api ?u' p (X + xsp) (Y + ysp) job))"
          using b(1) True by simp
        have "b \<in> set (es_leaves api xsp ysp Jobs u)"
          unfolding es_leaves_mem[OF \<open>Jobs \<noteq> []\<close>] using i p' b' by blast
        then show ?thesis using b(2) by blast
      qed
    qed
  qed
qed



lemma row_sim_blind: "handle_blind row_panel row_sim"
proof -
  have f: "map fst t = map fst u" and s: "map (fst \<circ> snd) t = map (fst \<circ> snd) u"
    and l: "length t = length u"
    if "row_sim t u" for t u :: "(real \<times> real \<times> string) list"
  proof -
    have m: "map (\<lambda>r. (fst r, fst (snd r))) t = map (\<lambda>r. (fst r, fst (snd r))) u"
      using that by (simp add: row_sim_def)
    have "map fst (map (\<lambda>r. (fst r, fst (snd r))) t) = map fst (map (\<lambda>r. (fst r, fst (snd r))) u)"
      using m by simp
    then show "map fst t = map fst u" by (simp add: comp_def)
    have "map snd (map (\<lambda>r. (fst r, fst (snd r))) t) = map snd (map (\<lambda>r. (fst r, fst (snd r))) u)"
      using m by simp
    then show "map (fst \<circ> snd) t = map (fst \<circ> snd) u" by (simp add: comp_def)
    show "length t = length u" using m by (rule map_eq_imp_length_eq)
  qed
  show ?thesis
    unfolding handle_blind_def
  proof (intro conjI allI impI)
    fix t :: "(real \<times> real \<times> string) list"
    show "row_sim t t" by (simp add: row_sim_def)
  next
    fix t u assume "row_sim t u"
    then show "area row_panel t = area row_panel u" using f s by (simp add: row_panel_def)
  next
    fix t u assume "row_sim t u"
    then show "corners row_panel t = corners row_panel u" using s by (simp add: row_panel_def)
  next
    fix t u w h assume "row_sim t u"
    then show "validAddPoints row_panel t w h = validAddPoints row_panel u w h"
      using l by (simp add: row_panel_def)
  next
    fix t u m assume "row_sim t u"
    then show "row_sim (removeInlets row_panel t m) (removeInlets row_panel u m)"
      by (simp add: row_panel_def)
  next
    fix t u p w h j j' assume "row_sim t u"
    then show "row_sim (addJob row_panel t p w h j) (addJob row_panel u p w h j')"
      by (simp add: row_panel_def row_sim_def)
  qed
qed

lemma score_le_sim:
  "handle_blind api sim \<Longrightarrow> sim t u \<Longrightarrow> score_le api b u \<Longrightarrow> score_le api b t"
  unfolding handle_blind_def score_le_def by metis

lemma all_search_leaves_cover:
  assumes "handle_blind api sim" and "a \<in> set (all_search_leaves api Jobs x y xsp ysp base)"
  shows "\<exists>b\<in>set (search_leaves api Jobs x y xsp ysp base). sim a b"
proof -
  have r: "sim t t" for t using assms(1) unfolding handle_blind_def by blast
  show ?thesis
    using all_leaves_sim[OF assms(1) r] assms(2)
    unfolding all_search_leaves_def search_leaves_def by blast
qed

lemma search_leaves_subset:
  "set (search_leaves api Jobs x y xsp ysp base) \<subseteq> set (all_search_leaves api Jobs x y xsp ysp base)"
  unfolding all_search_leaves_def search_leaves_def
  by (rule subsetI) (rule es_leaves_subset)

section \<open>The claims\<close>

text \<open>
  C1 (permutation conservation). When the search has run through, \<open>permutations\<close> should
  equal \<open>possiblePermutations\<close>, that is \<open>2 ^ N * N!\<close>. The correction for a variant
  without an add-point is \<open>2 ^ M\<close> for the \<open>M\<close> remaining jobs, where the subtree holds
  \<open>2 ^ M * M!\<close> permutations. For three jobs of 6 by 6 on a panel of 5 by 5, where no job
  fits, the search ends with 24 of the 48 permutations counted.
\<close>

theorem permutations_fall_short:
  "map_sum id permutations
     (exhaustive_search full_panel (\<lambda>n. 0) 0 (1 / 2) big3 5 5 0 0 0 None True) = Inr 24
   \<and> possiblePermutations big3 = 48"
  by code_simp


text \<open>
  C10 (the tie-break never reads the corners of a missing best tiling). A search that is
  constructed and run never raises the AttributeError of \<open>leaf_update\<close>, for every job
  list, tiling module, clock, timeout and base tiling: the best score is infinite exactly
  as long as there is no best tiling, and then every area is strictly smaller.
\<close>

theorem leaf_comparison_never_fails:
  "exhaustive_search api tm k rnd Jobs x y xsp ysp timeout base printStats \<noteq> Inl AttributeError"
  using exhaustive_search_tracks[of api tm k rnd Jobs x y xsp ysp timeout base printStats]
  by auto

text \<open>
  C2 (optimality and determinism of the exhaustive search). When the timeout check never
  fires and no status report fails, the search returns, and its best tiling is one of the
  complete tilings \<open>L\<close> that the placement rules reach (every job order, the normal
  orientation and, unless the job is a square, the rotated one, every valid add-point), with
  \<open>bestScore\<close> its area; no tiling of \<open>L\<close> has a smaller area, and none of the same area
  has fewer corners. There is no best tiling exactly when \<open>L\<close> is empty. When the tiling
  module does not look at the job handles, the same holds among the tilings \<open>A\<close> in which
  the squares are placed in their rotated orientation too. A second run on the same jobs,
  panel, spacing and base tiling, with any other clock, random number and timeout that
  does not fire, ends with the same best tiling and score.
\<close>

theorem exhaustive_search_optimal:
  assumes "no_timeout tm (tm k) timeout printStats"
    and "no_timeout tm' (tm' k') timeout' printStats'"
    and "reports_ok api printStats (search_leaves api Jobs x y xsp ysp base)"
    and "reports_ok api printStats' (search_leaves api Jobs x y xsp ysp base)"
  shows "let L = search_leaves api Jobs x y xsp ysp base;
             A = all_search_leaves api Jobs x y xsp ysp base
         in \<exists>s s'.
           exhaustive_search api tm k rnd Jobs x y xsp ysp timeout base printStats = Inr s \<and>
           exhaustive_search api tm' k' rnd' Jobs x y xsp ysp timeout' base printStats' = Inr s' \<and>
           (bestTiling s = None \<longleftrightarrow> L = []) \<and>
           (\<forall>b. bestTiling s = Some b \<longrightarrow>
              b \<in> set L \<and> bestScore s = Score (area api b) \<and> (\<forall>t\<in>set L. score_le api b t)) \<and>
           (handle_blind api sim \<longrightarrow>
              (bestTiling s = None \<longleftrightarrow> A = []) \<and>
              (\<forall>b. bestTiling s = Some b \<longrightarrow> b \<in> set A \<and> (\<forall>t\<in>set A. score_le api b t))) \<and>
           bestTiling s' = bestTiling s \<and> bestScore s' = bestScore s"
proof -
  define L where "L = search_leaves api Jobs x y xsp ysp base"
  define A where "A = all_search_leaves api Jobs x y xsp ysp base"
  obtain s where s: "exhaustive_search api tm k rnd Jobs x y xsp ysp timeout base printStats = Inr s"
      "best_inv api s" "bestTiling s = foldl (better_tiling api) None L"
    using exhaustive_search_tracks[of api tm k rnd Jobs x y xsp ysp timeout base printStats]
      assms(1,3)
    by (auto simp: L_def reports_ok_def)
  obtain s' where s': "exhaustive_search api tm' k' rnd' Jobs x y xsp ysp timeout' base printStats' = Inr s'"
      "best_inv api s'" "bestTiling s' = foldl (better_tiling api) None L"
    using exhaustive_search_tracks[of api tm' k' rnd' Jobs x y xsp ysp timeout' base printStats']
      assms(2,4)
    by (auto simp: L_def reports_ok_def)
  note F = foldl_better_tiling[OF s(3)[symmetric]]
  have same: "bestTiling s' = bestTiling s" using s(3) s'(3) by simp
  have sc: "bestScore s' = bestScore s"
    using s(2) s'(2) same by (auto simp: best_inv_def split: option.splits)
  have opt: "(bestTiling s = None \<longleftrightarrow> L = []) \<and>
        (\<forall>b. bestTiling s = Some b \<longrightarrow>
              b \<in> set L \<and> bestScore s = Score (area api b) \<and> (\<forall>t\<in>set L. score_le api b t))"
    using F s(2) by (auto simp: best_inv_def)
  have sub: "set L \<subseteq> set A"
    unfolding L_def A_def by (rule search_leaves_subset)
  have all: "(bestTiling s = None \<longleftrightarrow> A = []) \<and>
        (\<forall>b. bestTiling s = Some b \<longrightarrow> b \<in> set A \<and> (\<forall>t\<in>set A. score_le api b t))"
    if hb: "handle_blind api sim"
  proof -
    have cover: "\<exists>u\<in>set L. sim t u" if "t \<in> set A" for t
      using all_search_leaves_cover[OF hb] that unfolding L_def A_def by blast
    have e: "L = [] \<longleftrightarrow> A = []"
    proof
      assume "L = []"
      then have "set A = {}" using cover by fastforce
      then show "A = []" by simp
    next
      assume "A = []"
      then show "L = []" using sub by simp
    qed
    have m: "b \<in> set A \<and> (\<forall>t\<in>set A. score_le api b t)" if b: "bestTiling s = Some b" for b
    proof
      show "b \<in> set A" using opt b sub by blast
      show "\<forall>t\<in>set A. score_le api b t"
      proof
        fix t assume "t \<in> set A"
        then obtain u where u: "u \<in> set L" "sim t u" using cover by blast
        have "score_le api b u" using opt b u(1) by blast
        then show "score_le api b t" using score_le_sim[OF hb u(2)] by blast
      qed
    qed
    show ?thesis using opt e m by blast
  qed
  show ?thesis
    unfolding L_def[symmetric] A_def[symmetric] Let_def
    apply (rule exI[of _ s])
    apply (rule exI[of _ s'])
    apply (intro conjI)
          apply (rule s(1))
         apply (rule s'(1))
        apply (rule opt[THEN conjunct1])
       apply (rule opt[THEN conjunct2])
      apply (rule impI)
      apply (erule all)
     apply (rule same)
    apply (rule sc)
    done
qed

theorem exhaustive_search_optimal_witness:
  "no_timeout (\<lambda>n. 0) 0 0 True \<and> no_timeout (\<lambda>n. real n) 0 5 False \<and>
   reports_ok row_panel True (search_leaves row_panel oblongs2 50 50 0 0 None) \<and>
   reports_ok row_panel False (search_leaves row_panel oblongs2 50 50 0 0 None) \<and>
   handle_blind row_panel row_sim \<and>
   (let L = search_leaves row_panel oblongs2 50 50 0 0 None;
        A = all_search_leaves row_panel oblongs2 50 50 0 0 None
    in \<exists>s s'.
         exhaustive_search row_panel (\<lambda>n. 0) 0 (1 / 2) oblongs2 50 50 0 0 0 None True = Inr s \<and>
         exhaustive_search row_panel (\<lambda>n. real n) 0 (1 / 3) oblongs2 50 50 0 0 5 None False
           = Inr s' \<and>
         (bestTiling s = None \<longleftrightarrow> L = []) \<and>
         (\<forall>b. bestTiling s = Some b \<longrightarrow>
            b \<in> set L \<and> bestScore s = Score (area row_panel b) \<and>
            (\<forall>t\<in>set L. score_le row_panel b t)) \<and>
         (bestTiling s = None \<longleftrightarrow> A = []) \<and>
         (\<forall>b. bestTiling s = Some b \<longrightarrow> b \<in> set A \<and> (\<forall>t\<in>set A. score_le row_panel b t)) \<and>
         bestTiling s' = bestTiling s \<and> bestScore s' = bestScore s)"
proof -
  have h1: "no_timeout (\<lambda>n. 0) ((\<lambda>n. 0) (0::nat)) 0 True" by (simp add: no_timeout_def)
  have h2: "no_timeout (\<lambda>n. real n) ((\<lambda>n. real n) 0) 5 False" by (simp add: no_timeout_def)
  have h3: "reports_ok row_panel True (search_leaves row_panel oblongs2 50 50 0 0 None)"
    by code_simp
  have h4: "reports_ok row_panel False (search_leaves row_panel oblongs2 50 50 0 0 None)"
    by (simp add: reports_ok_def)
  note h5 = row_sim_blind
  show ?thesis
    using h1 h2 h3 h4 h5
      exhaustive_search_optimal[OF h1 h2 h3 h4, where rnd = "1 / 2" and rnd' = "1 / 3"
        and sim = row_sim]
    by simp
qed

text \<open>
  C3 (the merge of the coordinator), as claimed: a reported tiling of the same area as the
  global best and with fewer corners replaces it. It does not: \<open>row_abc\<close> is strictly
  better than \<open>row_acb\<close> (same area, six corners against eight), and the coordinator that
  holds \<open>row_acb\<close> keeps it when \<open>row_abc\<close> is reported.
\<close>

theorem coordinator_ignores_corners:
  "strictly_better row_panel row_abc row_acb \<and>
   globalBestTiling (merge_result row_panel coordinator_init (5, Some row_acb)) = Some row_acb \<and>
   globalBestTiling (merge_result row_panel
      (merge_result row_panel coordinator_init (5, Some row_acb)) (7, Some row_abc)) = Some row_acb"
  by (simp add: strictly_better_def row_panel_def row_abc_def row_acb_def merge_result_def
        coordinator_init_def)

text \<open>
  C3, amended: the coordinator replaces its global best tiling and score exactly when the
  message carries a tiling whose area is strictly smaller than the global best score; the
  corner count is not compared.
\<close>

theorem coordinator_merge_by_area:
  "globalBestTiling (merge_result api c (n, r)) =
     (case r of
        Some t \<Rightarrow> if score_lt (Score (area api t)) (globalBestScore c) then Some t
                  else globalBestTiling c
      | None \<Rightarrow> globalBestTiling c) \<and>
   globalBestScore (merge_result api c (n, r)) =
     (case r of
        Some t \<Rightarrow> if score_lt (Score (area api t)) (globalBestScore c) then Score (area api t)
                  else globalBestScore c
      | None \<Rightarrow> globalBestScore c)"
  by (simp add: merge_result_def Let_def split: option.splits)

text \<open>
  C4 (the comparison after the tail search), as claimed: the worker's best is replaced when
  the tail search ends with the same area and fewer corners. It is not: the worker that
  holds \<open>row_acb\<close> after a first trial keeps it in a second trial whose tail search ends
  with \<open>row_abc\<close>, of the same area and with fewer corners.
\<close>

theorem worker_ignores_corners:
  "rs_trial row_panel (\<lambda>n. 0) squares_cfg 1 [] (order_rand [0, 2, 1]) (RandomSearch_init_state 0)
     = Inr worker_acb
   \<and> map_option result_best
       (rs_tail row_panel (\<lambda>n. 0) squares_cfg 1 [] (order_rand [0, 1, 2]) (ticks worker_acb))
     = Some (Inr (Some row_abc, Score 8))
   \<and> strictly_better row_panel row_abc row_acb
   \<and> result_best (rs_trial row_panel (\<lambda>n. 0) squares_cfg 1 [] (order_rand [0, 1, 2]) worker_acb)
     = Inr (Some row_acb, Score 8)"
  by code_simp

text \<open>
  C4, amended: when the random placements of a trial succeed and the tail search has run,
  the worker's best tiling and score are replaced by those of the tail search exactly when
  the tail search's best score (an area, or infinity) is strictly smaller than the worker's
  best score; corner counts are not compared.
\<close>

theorem worker_tail_by_area:
  assumes "rs_tail api tm cfg exhaustiveSearchJobs baseTiling rand (ticks w) = Some (Inr finalSearch)"
  shows "result_best (rs_trial api tm cfg exhaustiveSearchJobs baseTiling rand w) =
           Inr (if score_lt (bestScore finalSearch) (bestScore w)
                then (bestTiling finalSearch, bestScore finalSearch)
                else (bestTiling w, bestScore w))"
  using assms by (simp add: rs_trial_def result_best_def rs_count_def Let_def)

theorem worker_tail_by_area_witness:
  "rs_tail row_panel (\<lambda>n. 0) squares_cfg 1 [] (order_rand [0, 1, 2]) (ticks worker_acb)
     = Some (Inr tail_abc) \<and>
   result_best (rs_trial row_panel (\<lambda>n. 0) squares_cfg 1 [] (order_rand [0, 1, 2]) worker_acb) =
     Inr (if score_lt (bestScore tail_abc) (bestScore worker_acb)
          then (bestTiling tail_abc, bestScore tail_abc)
          else (bestTiling worker_acb, bestScore worker_acb))"
proof -
  have h: "rs_tail row_panel (\<lambda>n. 0) squares_cfg 1 [] (order_rand [0, 1, 2]) (ticks worker_acb)
             = Some (Inr tail_abc)"
    by code_simp
  show ?thesis using h worker_tail_by_area[OF h] by blast
qed

text \<open>
  C5 (an abandoned trial earns nothing). When the loop over the first \<open>M\<close> jobs of the
  order has placed the jobs before position \<open>i < M\<close> and the chosen orientation of the job
  at position \<open>i\<close> has no valid add-point, the trial runs no tail search (the clock is not
  read), leaves the best tiling and the best score as they were, counts one placement and
  raises no error; the loop goes on with the synchronization and the next trial.
\<close>

theorem abandoned_trial_no_credit:
  assumes "i < rs_M cfg exhaustiveSearchJobs" and "i < length (joborder rand)"
    and "place_random api cfg rand (minDimension api (jobs cfg)) 0 (take i (joborder rand))
           baseTiling = Some t"
    and "chosen_addpoints api cfg (coin rand i) (jobs cfg ! (joborder rand ! i))
           (removeInlets api t (minDimension api (jobs cfg))) = []"
  shows "rs_tail api tm cfg exhaustiveSearchJobs baseTiling rand (ticks w) = None \<and>
         rs_trial api tm cfg exhaustiveSearchJobs baseTiling rand w = Inr (rs_count w) \<and>
         bestTiling (rs_count w) = bestTiling w \<and> bestScore (rs_count w) = bestScore w \<and>
         ticks (rs_count w) = ticks w \<and> placements (rs_count w) = placements w + 1 \<and>
         rs_run api tm cfg exhaustiveSearchJobs baseTiling (rand # rands) w =
           (case rs_sync tm cfg (rs_count w) of
              (True, w2) \<Rightarrow> Inr (True, w2)
            | (False, w2) \<Rightarrow> rs_run api tm cfg exhaustiveSearchJobs baseTiling rands w2)"
proof -
  let ?M = "rs_M cfg exhaustiveSearchJobs"
  let ?xs = "take ?M (joborder rand)"
  have len: "i < length ?xs" using assms(1,2) by simp
  have split: "?xs = take i (joborder rand) @ (joborder rand ! i) # drop (Suc i) ?xs"
    using id_take_nth_drop[OF len] assms(1) by (simp add: min_def)
  have "place_random api cfg rand (minDimension api (jobs cfg)) 0 ?xs baseTiling = None"
    by (subst split) (use assms(2,3,4) in \<open>simp add: place_random_append Let_def\<close>)
  then have place: "rs_place api cfg exhaustiveSearchJobs baseTiling rand = None"
    by (simp add: rs_place_def)
  then have tail: "rs_tail api tm cfg exhaustiveSearchJobs baseTiling rand (ticks w) = None"
    by (simp add: rs_tail_def)
  then have trial: "rs_trial api tm cfg exhaustiveSearchJobs baseTiling rand w = Inr (rs_count w)"
    by (simp add: rs_trial_def)
  show ?thesis using tail trial by (simp add: rs_count_def)
qed

theorem abandoned_trial_no_credit_witness:
  "0 < rs_M big_cfg 1 \<and> 0 < length (joborder (order_rand [0, 1, 2])) \<and>
   place_random full_panel big_cfg (order_rand [0, 1, 2]) (minDimension full_panel (jobs big_cfg)) 0
     (take 0 (joborder (order_rand [0, 1, 2]))) () = Some () \<and>
   chosen_addpoints full_panel big_cfg (coin (order_rand [0, 1, 2]) 0)
     (jobs big_cfg ! (joborder (order_rand [0, 1, 2]) ! 0))
     (removeInlets full_panel () (minDimension full_panel (jobs big_cfg))) = [] \<and>
   rs_trial full_panel (\<lambda>n. 0) big_cfg 1 () (order_rand [0, 1, 2]) (RandomSearch_init_state 0)
     = Inr (rs_count (RandomSearch_init_state 0)) \<and>
   bestTiling (rs_count (RandomSearch_init_state 0 :: unit worker_state)) = None"
proof -
  have h1: "0 < rs_M big_cfg 1" by code_simp
  have h2: "0 < length (joborder (order_rand [0, 1, 2]))" by code_simp
  have h3: "place_random full_panel big_cfg (order_rand [0, 1, 2])
              (minDimension full_panel (jobs big_cfg)) 0
              (take 0 (joborder (order_rand [0, 1, 2]))) () = Some ()"
    by simp
  have h4: "chosen_addpoints full_panel big_cfg (coin (order_rand [0, 1, 2]) 0)
              (jobs big_cfg ! (joborder (order_rand [0, 1, 2]) ! 0))
              (removeInlets full_panel () (minDimension full_panel (jobs big_cfg))) = []"
    by code_simp
  show ?thesis
    using h1 h2 h3 h4
      abandoned_trial_no_credit[OF h1 h2 h3 h4, where tm = "\<lambda>n. 0"
        and w = "RandomSearch_init_state 0" and rands = "[]"]
    by (simp add: RandomSearch_init_state_def)
qed

text \<open>
  C6 (the threshold of the inlet pruning), as claimed: before each of the first \<open>M\<close> jobs
  \<^verbatim>\<open>removeInlets\<close> is called with the minimum dimension of the jobs still outstanding. For
  the jobs 2 by 1 and 3 by 2, placed in this order, that would be 1 and then 2; the calls
  are made with 1 and 1.
\<close>

theorem inlet_threshold_not_outstanding:
  "map_option snd (rs_place (logged row_panel) oblongs_cfg 0 ([], []) (order_rand [0, 1])) = Some [1, 1]
   \<and> outstanding_thresholds row_panel oblongs_cfg 0 (order_rand [0, 1]) = [1, 2]"
  by code_simp

text \<open>
  C6, amended: in every trial, abandoned or not, each call of \<^verbatim>\<open>removeInlets\<close> that is
  made before placing one of the first \<open>M\<close> jobs of the order is made with the minimum
  dimension of the whole job list, which is computed once before the loop. Whenever the
  jobs before position \<open>i\<close> have been placed, the \<open>i\<close> calls made so far had this
  threshold; if that was the whole loop, the trial's tiling is this one; if a job is left
  at position \<open>i\<close>, the next call has the same threshold, and the trial is abandoned when
  the job has no add-point there and goes on otherwise.
\<close>

theorem inlet_threshold_all_jobs:
  assumes "i \<le> rs_M cfg exhaustiveSearchJobs" and "i \<le> length (joborder rand)"
    and "place_random (logged api) cfg rand (minDimension api (jobs cfg)) 0
           (take i (joborder rand)) (t, l) = Some r"
  shows "snd r = l @ replicate i (minDimension api (jobs cfg)) \<and>
         (i = min (rs_M cfg exhaustiveSearchJobs) (length (joborder rand)) \<longrightarrow>
            rs_place (logged api) cfg exhaustiveSearchJobs (t, l) rand = Some r) \<and>
         (i < min (rs_M cfg exhaustiveSearchJobs) (length (joborder rand)) \<longrightarrow>
            snd (removeInlets (logged api) r (minDimension api (jobs cfg))) =
              l @ replicate (Suc i) (minDimension api (jobs cfg)) \<and>
            rs_place (logged api) cfg exhaustiveSearchJobs (t, l) rand =
              (let tg = removeInlets (logged api) r (minDimension api (jobs cfg));
                   addpoints = chosen_addpoints (logged api) cfg (coin rand i)
                                 (jobs cfg ! (joborder rand ! i)) tg
               in if addpoints = [] then None
                  else place_random (logged api) cfg rand (minDimension api (jobs cfg)) (i + 1)
                         (drop (Suc i) (take (rs_M cfg exhaustiveSearchJobs) (joborder rand)))
                         (chosen_addJob (logged api) cfg (coin rand i)
                            (jobs cfg ! (joborder rand ! i))
                            (addpoints ! (choice rand i mod length addpoints)) tg)))"
proof -
  let ?m = "minDimension api (jobs cfg)"
  let ?M = "rs_M cfg exhaustiveSearchJobs"
  let ?xs = "take ?M (joborder rand)"
  have md: "minDimension (logged api) (jobs cfg) = ?m" by (simp add: logged_def)
  have len: "length (take i (joborder rand)) = i" using assms(2) by simp
  have a: "snd r = l @ replicate i ?m"
    using place_random_logged[OF assms(3)] len by simp
  have b: "rs_place (logged api) cfg exhaustiveSearchJobs (t, l) rand = Some r"
    if "i = min ?M (length (joborder rand))"
  proof -
    have "take i (joborder rand) = ?xs" using that by (simp add: min_def)
    then show ?thesis using assms(3) by (simp add: rs_place_def md)
  qed
  have c: "snd (removeInlets (logged api) r ?m) = l @ replicate (Suc i) ?m \<and>
            rs_place (logged api) cfg exhaustiveSearchJobs (t, l) rand =
              (let tg = removeInlets (logged api) r ?m;
                   addpoints = chosen_addpoints (logged api) cfg (coin rand i)
                                 (jobs cfg ! (joborder rand ! i)) tg
               in if addpoints = [] then None
                  else place_random (logged api) cfg rand ?m (i + 1)
                         (drop (Suc i) ?xs)
                         (chosen_addJob (logged api) cfg (coin rand i)
                            (jobs cfg ! (joborder rand ! i))
                            (addpoints ! (choice rand i mod length addpoints)) tg))"
    if lt: "i < min ?M (length (joborder rand))"
  proof
    show "snd (removeInlets (logged api) r ?m) = l @ replicate (Suc i) ?m"
      using a by (simp add: logged_def replicate_append_same)
    have ilen: "i < length ?xs" using lt by simp
    have split: "?xs = take i (joborder rand) @ (joborder rand ! i) # drop (Suc i) ?xs"
      using id_take_nth_drop[OF ilen] lt assms(1) by (simp add: min_def)
    have "rs_place (logged api) cfg exhaustiveSearchJobs (t, l) rand =
            place_random (logged api) cfg rand ?m 0
              (take i (joborder rand) @ (joborder rand ! i) # drop (Suc i) ?xs) (t, l)"
      unfolding rs_place_def md using split by simp
    also have "\<dots> = place_random (logged api) cfg rand ?m i
                       ((joborder rand ! i) # drop (Suc i) ?xs) r"
      using assms(3) len by (simp add: place_random_append)
    finally show "rs_place (logged api) cfg exhaustiveSearchJobs (t, l) rand =
              (let tg = removeInlets (logged api) r ?m;
                   addpoints = chosen_addpoints (logged api) cfg (coin rand i)
                                 (jobs cfg ! (joborder rand ! i)) tg
               in if addpoints = [] then None
                  else place_random (logged api) cfg rand ?m (i + 1)
                         (drop (Suc i) ?xs)
                         (chosen_addJob (logged api) cfg (coin rand i)
                            (jobs cfg ! (joborder rand ! i))
                            (addpoints ! (choice rand i mod length addpoints)) tg))"
      by (simp add: Let_def)
  qed
  show ?thesis using a b c by blast
qed

theorem inlet_threshold_all_jobs_witness:
  "1 \<le> rs_M oblongs_cfg 0 \<and> 1 \<le> length (joborder (order_rand [0, 1])) \<and>
   place_random (logged single_panel) oblongs_cfg (order_rand [0, 1])
     (minDimension single_panel (jobs oblongs_cfg)) 0
     (take 1 (joborder (order_rand [0, 1]))) ([], []) = Some ([(2, 1, ''a'')], [1]) \<and>
   snd ([(2 :: real, 1 :: real, ''a'')], [1 :: real]) =
     [] @ replicate 1 (minDimension single_panel (jobs oblongs_cfg)) \<and>
   snd (removeInlets (logged single_panel) ([(2, 1, ''a'')], [1])
          (minDimension single_panel (jobs oblongs_cfg))) = [1, 1] \<and>
   rs_place (logged single_panel) oblongs_cfg 0 ([], []) (order_rand [0, 1]) = None"
proof -
  have h1: "1 \<le> rs_M oblongs_cfg 0" by code_simp
  have h2: "1 \<le> length (joborder (order_rand [0, 1]))" by code_simp
  have h3: "place_random (logged single_panel) oblongs_cfg (order_rand [0, 1])
     (minDimension single_panel (jobs oblongs_cfg)) 0
     (take 1 (joborder (order_rand [0, 1]))) ([], []) = Some ([(2, 1, ''a'')], [1])"
    by code_simp
  have lt: "1 < min (rs_M oblongs_cfg 0) (length (joborder (order_rand [0, 1])))" by code_simp
  have e: "chosen_addpoints (logged single_panel) oblongs_cfg (coin (order_rand [0, 1]) 1)
             (jobs oblongs_cfg ! (joborder (order_rand [0, 1]) ! 1))
             (removeInlets (logged single_panel) ([(2, 1, ''a'')], [1])
                (minDimension single_panel (jobs oblongs_cfg))) = []"
    by code_simp
  have m: "minDimension single_panel (jobs oblongs_cfg) = 1" by code_simp
  note T = inlet_threshold_all_jobs[OF h1 h2 h3]
  have t1: "snd ([(2 :: real, 1 :: real, ''a'')], [1 :: real]) =
     [] @ replicate 1 (minDimension single_panel (jobs oblongs_cfg))"
    using T by blast
  have t2: "snd (removeInlets (logged single_panel) ([(2, 1, ''a'')], [1])
          (minDimension single_panel (jobs oblongs_cfg))) = [1, 1]"
    using T lt m by simp
  have t3: "rs_place (logged single_panel) oblongs_cfg 0 ([], []) (order_rand [0, 1]) = None"
    using T lt e by (simp add: Let_def)
  show ?thesis using h1 h2 h3 t1 t2 t3 by blast
qed

text \<open>
  C7 (the timeout stops the search). With a timeout of one second and a clock that shows
  more than a hundred seconds at every reading after the start, the first throttled check
  (after the two tilings that place \<open>a\<close> unrotated first) finds the timeout passed and
  \<^verbatim>\<open>_run\<close> returns, with a best area of 10. This return leaves the inner call only: the
  outer loop goes on, places \<open>a\<close> rotated and \<open>b\<close> first, and the search ends with all 8
  permutations counted and a best area of 8, found after the timeout.
\<close>

theorem timeout_return_leaves_one_level:
  "sync_check row_panel late_clock late_cfg True
     \<lparr>bestTiling = Some [(2, 1, ''a''), (3, 2, ''b'')], bestScore = Score 10,
      placements = 0, lastCheckTime = 0, ticks = 1, permutations = 2\<rparr>
   = Inr (True, \<lparr>bestTiling = Some [(2, 1, ''a''), (3, 2, ''b'')], bestScore = Score 10,
                 placements = 0, lastCheckTime = late_clock 2, ticks = 4, permutations = 2\<rparr>)
   \<and> es_run row_panel late_clock late_cfg [(3, 2, ''b'', ''br'')] (Some [(2, 1, ''a'')]) True True
       (ExhaustiveSearch_init_state 0)
   = Inr \<lparr>bestTiling = Some [(2, 1, ''a''), (3, 2, ''b'')], bestScore = Score 10,
          placements = 0, lastCheckTime = late_clock 2, ticks = 4, permutations = 2\<rparr>
   \<and> exhaustive_search row_panel late_clock 0 (1 / 2) oblongs2 50 50 0 0 1 None True
   = Inr \<lparr>bestTiling = Some [(1, 2, ''ar''), (3, 2, ''b'')], bestScore = Score 8,
          placements = 0, lastCheckTime = late_clock 2, ticks = 9, permutations = 8\<rparr>
   \<and> possiblePermutations oblongs2 = 8"
  by code_simp

text \<open>
  C8 (an interrupt returns the best tiling). After the interrupt, and after any number of
  rounds, \<^verbatim>\<open>tile_search_random\<close> does not return: the summary line formats the float
  \<^verbatim>\<open>computeTime\<close> with \<^verbatim>\<open>{:d}\<close> (or divides by it when it is zero), and the report of a
  better tiling inside the loop fails in the same way.
\<close>

theorem tile_search_random_raises: "\<exists>e. tile_search_random api rounds computeTime = Inl e"
proof (cases "coordinator_loop api rounds coordinator_init")
  case (Inl e)
  then show ?thesis by (simp add: tile_search_random_def)
next
  case (Inr c)
  obtain e where "summary (placementsTried c) computeTime = Inl e"
    using summary_fails by blast
  then show ?thesis using Inr by (simp add: tile_search_random_def)
qed

text \<open>
  C9 (the best of a worker only improves). From every worker state in which the best score
  is the area of the best tiling (or infinite when there is none), any number of trials
  raise no error and end in such a state again; the best score has not grown, and if the
  best tiling has changed, the new one has an area strictly below the old best score.
\<close>

theorem worker_best_monotonic:
  assumes "best_inv api w"
  shows "\<exists>returned w'. rs_run api tm cfg exhaustiveSearchJobs baseTiling rands w = Inr (returned, w')
           \<and> improves api w w'"
  using assms
proof (induction rands arbitrary: w)
  case Nil
  then show ?case by (auto simp: improves_refl)
next
  case (Cons rand rands)
  obtain w1 where w1: "rs_trial api tm cfg exhaustiveSearchJobs baseTiling rand w = Inr w1"
      "improves api w w1"
    using rs_trial_improves[OF Cons.prems] by blast
  obtain b w2 where w2: "rs_sync tm cfg w1 = (b, w2)" by force
  have inv1: "best_inv api w1" using w1(2) by (simp add: improves_def)
  have i2: "improves api w w2"
    using improves_trans[OF w1(2) rs_sync_improves[OF w2 inv1]] .
  show ?case
  proof (cases b)
    case True
    then show ?thesis using w1(1) w2 i2 by auto
  next
    case False
    have inv2: "best_inv api w2" using i2 by (simp add: improves_def)
    obtain r w' where r: "rs_run api tm cfg exhaustiveSearchJobs baseTiling rands w2 = Inr (r, w')"
        "improves api w2 w'"
      using Cons.IH[OF inv2] by blast
    show ?thesis using w1(1) w2 False r(1) improves_trans[OF i2 r(2)] by auto
  qed
qed

theorem worker_best_monotonic_witness:
  "best_inv row_panel (RandomSearch_init_state 0 :: (real \<times> real \<times> string) list worker_state) \<and>
   (\<exists>returned w'.
      rs_run row_panel (\<lambda>n. 0) squares_cfg 1 [] [order_rand [0, 2, 1], order_rand [0, 1, 2]]
        (RandomSearch_init_state 0) = Inr (returned, w') \<and>
      improves row_panel
        (RandomSearch_init_state 0 :: (real \<times> real \<times> string) list worker_state) w')"
proof -
  have h: "best_inv row_panel
             (RandomSearch_init_state 0 :: (real \<times> real \<times> string) list worker_state)"
    by (simp add: best_inv_def RandomSearch_init_state_def)
  show ?thesis
    using h worker_best_monotonic[OF h, where tm = "\<lambda>n. 0" and cfg = squares_cfg
        and exhaustiveSearchJobs = 1 and baseTiling = "[]"
        and rands = "[order_rand [0, 2, 1], order_rand [0, 1, 2]]"]
    by blast
qed

end
